theory Spec2Isabelle
  imports Main
begin

section \<open>Values of the changes client (database_changes.go)\<close>

text \<open>
  Go errors are values; a runtime panic is kept apart from them.  A call of the
  source either panics, blocks for ever on a future nobody completes, or returns.
\<close>

datatype error =
    IllegalArgumentException string
  | RuntimeException string
  | WriteError string
  | TimeoutException
  | CancellationException

datatype fault =
    NilMapAssignment
  | NilPointerDereference
  | InterfaceConversion
  | IndexOutOfRange

datatype 'a outcome = Panic fault | Blocked | Return 'a

text \<open>
  \<^verbatim>\<open>_commandId int\<close>: a 64-bit two's complement integer; \<^verbatim>\<open>c._commandId++\<close>
  wraps around.
\<close>

definition go_int :: "int \<Rightarrow> int" where
  "go_int n = (n + 2 ^ 63) mod 2 ^ 64 - 2 ^ 63"

definition MaxInt :: int where
  "MaxInt = 2 ^ 63 - 1"

subsection \<open>CompletableFuture\<close>

text \<open>
  Modelled from the spec: the type CompletableFuture is not among the sources.  The
  spec describes it as "a single-assignment, awaitable result cell usable across
  threads, supporting completion with a value or with a failure, bounded-wait
  retrieval, and cancellation".  The value a future is completed with is never
  read by database_changes.go and is left out.  A future lives in a heap cell;
  these functions give the new content of the cell.
\<close>

datatype CompletableFuture = Pending | Completed | Failed error | Cancelled

fun Complete :: "CompletableFuture \<Rightarrow> CompletableFuture" where
  "Complete Pending = Completed"
| "Complete f = f"

fun CompleteExceptionally :: "error \<Rightarrow> CompletableFuture \<Rightarrow> CompletableFuture" where
  "CompleteExceptionally e Pending = Failed e"
| "CompleteExceptionally e f = f"

fun Cancel :: "CompletableFuture \<Rightarrow> CompletableFuture" where
  "Cancel Pending = Cancelled"
| "Cancel f = f"

fun IsDone :: "CompletableFuture \<Rightarrow> bool" where
  "IsDone Pending = False"
| "IsDone f = True"

text \<open>
  \<^verbatim>\<open>GetWithTimeout(time.Second * 15)\<close>, applied to the content the cell has when
  the wait ends: a future still pending after the 15 seconds gives the timeout
  error.
\<close>

fun GetWithTimeout :: "CompletableFuture \<Rightarrow> error option" where
  "GetWithTimeout Pending = Some TimeoutException"
| "GetWithTimeout Completed = None"
| "GetWithTimeout (Failed e) = Some e"
| "GetWithTimeout Cancelled = Some CancellationException"

subsection \<open>Notifications and strings.EqualFold\<close>

record DocumentChange =
  ID :: string
  CollectionName :: string
  TypeName :: string

record IndexChange =
  Name :: string

record OperationStatusChange =
  OperationID :: int

text \<open>
  \<^verbatim>\<open>notification interface{}\<close>: the filters assert the dynamic type with
  \<^verbatim>\<open>notification.(*DocumentChange)\<close>, which panics on another type.
\<close>

datatype notification =
    DocumentChangeN DocumentChange
  | IndexChangeN IndexChange
  | OperationStatusChangeN OperationStatusChange

text \<open>
  \<^verbatim>\<open>strings.EqualFold\<close> of the Go library: bytes below \<^verbatim>\<open>utf8.RuneSelf\<close> (128)
  are compared directly, an upper-case ASCII letter being equal to its lower-case
  form.  From the first position where either string has a byte of a multi-byte
  rune the library compares the rest rune by rune under Unicode simple folding;
  that table is not reproduced: the comparison of the two rests is the parameter
  \<open>U\<close>.
\<close>

definition asciiFold :: "char \<Rightarrow> char \<Rightarrow> bool" where
  "asciiFold s t =
     (let sr = min (of_char s :: nat) (of_char t); tr = max (of_char s :: nat) (of_char t)
      in sr = tr \<or> (65 \<le> sr \<and> sr \<le> 90 \<and> tr = sr + 32))"

fun EqualFold :: "(string \<Rightarrow> string \<Rightarrow> bool) \<Rightarrow> string \<Rightarrow> string \<Rightarrow> bool" where
  "EqualFold U [] [] = True"
| "EqualFold U [] (b # t) = False"
| "EqualFold U (a # s) [] = False"
| "EqualFold U (a # s) (b # t) =
     (if (of_char a :: nat) \<ge> 128 \<or> (of_char b :: nat) \<ge> 128 then U (a # s) (b # t)
      else if asciiFold a b then EqualFold U s t
      else False)"

text \<open>Lower-casing of ASCII letters, to say what the comparison decides.\<close>

definition toLowerASCII :: "char \<Rightarrow> char" where
  "toLowerASCII ch =
     (if 65 \<le> (of_char ch :: nat) \<and> (of_char ch :: nat) \<le> 90
      then char_of ((of_char ch :: nat) + 32) else ch)"

definition isASCII :: "string \<Rightarrow> bool" where
  "isASCII s = list_all (\<lambda>ch. (of_char ch :: nat) < 128) s"

subsection \<open>Observables and their filters\<close>

datatype ChangesType = ChangesType_DOCUMENT | ChangesType_INDEX | ChangesType_OPERATION

text \<open>
  \<^verbatim>\<open>NewChangesObservable(typ, counter, filter)\<close>: the constructor is not among the
  sources; the observable is the triple it is given.  \<open>connectionState\<close> is the
  address of the DatabaseConnectionState.
\<close>

record ChangesObservable =
  changesType :: ChangesType
  connectionState :: nat
  filterFn :: "notification \<Rightarrow> bool outcome"

definition NewChangesObservable ::
  "ChangesType \<Rightarrow> nat \<Rightarrow> (notification \<Rightarrow> bool outcome) \<Rightarrow> ChangesObservable" where
  "NewChangesObservable typ counter f =
     \<lparr>changesType = typ, connectionState = counter, filterFn = f\<rparr>"

text \<open>The filter closures, in the order of the source.\<close>

fun forIndex_filter :: "(string \<Rightarrow> string \<Rightarrow> bool) \<Rightarrow> string \<Rightarrow> notification \<Rightarrow> bool outcome" where
  "forIndex_filter U indexName (IndexChangeN v) = Return (EqualFold U (Name v) indexName)"
| "forIndex_filter U indexName _ = Panic InterfaceConversion"

fun forDocument_filter :: "(string \<Rightarrow> string \<Rightarrow> bool) \<Rightarrow> string \<Rightarrow> notification \<Rightarrow> bool outcome" where
  "forDocument_filter U docId (DocumentChangeN v) = Return (EqualFold U (ID v) docId)"
| "forDocument_filter U docId _ = Panic InterfaceConversion"

definition filterAlwaysTrue :: "notification \<Rightarrow> bool outcome" where
  "filterAlwaysTrue notification = Return True"

fun forOperationId_filter :: "int \<Rightarrow> notification \<Rightarrow> bool outcome" where
  "forOperationId_filter operationId (OperationStatusChangeN v) = Return (OperationID v = operationId)"
| "forOperationId_filter operationId _ = Panic InterfaceConversion"

fun forDocumentsStartingWith_filter ::
  "(string \<Rightarrow> string \<Rightarrow> bool) \<Rightarrow> string \<Rightarrow> notification \<Rightarrow> bool outcome" where
  "forDocumentsStartingWith_filter U docIdPrefix (DocumentChangeN v) =
     (let n = length docIdPrefix in
      if n > length (ID v) then Return False
      else (let prefix = take n (ID v) in Return (EqualFold U prefix docIdPrefix)))"
| "forDocumentsStartingWith_filter U docIdPrefix _ = Panic InterfaceConversion"

fun forDocumentsInCollection_filter ::
  "(string \<Rightarrow> string \<Rightarrow> bool) \<Rightarrow> string \<Rightarrow> notification \<Rightarrow> bool outcome" where
  "forDocumentsInCollection_filter U collectionName (DocumentChangeN v) =
     Return (EqualFold U collectionName (CollectionName v))"
| "forDocumentsInCollection_filter U collectionName _ = Panic InterfaceConversion"

fun forDocumentsOfType_filter ::
  "(string \<Rightarrow> string \<Rightarrow> bool) \<Rightarrow> string \<Rightarrow> notification \<Rightarrow> bool outcome" where
  "forDocumentsOfType_filter U typeName (DocumentChangeN v) =
     Return (EqualFold U typeName (TypeName v))"
| "forDocumentsOfType_filter U typeName _ = Panic InterfaceConversion"

section \<open>The DatabaseChanges object\<close>

text \<open>
  The methods of DatabaseChanges run on several goroutines: the callers', the
  reader (processMessages) and the worker started by NewDatabaseChanges.  Here an
  object is a value that each method takes and returns; a method runs as one step
  up to the points where it waits, and what the other goroutines do while it
  waits is an argument of the method.  The semaphore and the mutex \<^verbatim>\<open>mu\<close>, which
  put the critical sections in an order, are not fields of the record.
\<close>

subsection \<open>Inbound frames\<close>

text \<open>
  A frame is a decoded JSON object, \<^verbatim>\<open>map[string]interface{}\<close>.  (An element of
  the batch that is no object makes the type assertion of processMessages panic;
  the type of frames here holds objects only.)

  Modelled from the spec: jsonGetAsString and jsonGetAsInt are not among the
  sources.  They read a field of the given kind (the spec: "\<^verbatim>\<open>Type: "Confirm"\<close>,
  field \<^verbatim>\<open>CommandId: <int>\<close>") and report whether it was there.
\<close>

datatype json = JString string | JNumber int | JNull

type_synonym msgNode = "string \<Rightarrow> json option"

definition jsonGetAsString :: "msgNode \<Rightarrow> string \<Rightarrow> string \<times> bool" where
  "jsonGetAsString msgNode k =
     (case msgNode k of Some (JString s) \<Rightarrow> (s, True) | _ \<Rightarrow> ([], False))"

definition jsonGetAsInt :: "msgNode \<Rightarrow> string \<Rightarrow> int \<times> bool" where
  "jsonGetAsInt msgNode k =
     (case msgNode k of Some (JNumber n) \<Rightarrow> (n, True) | _ \<Rightarrow> (0, False))"

subsection \<open>State\<close>

text \<open>
  The callbacks registered with addConnectionStatusChanged: the object's own
  \<^verbatim>\<open>onConnectionStatusChanged\<close> (registered by NewDatabaseChanges) or a caller's.
\<close>

datatype handler = OwnStatusHandler | ExternalHandler nat

text \<open>
  What the object does to the outside: a \<^verbatim>\<open>WriteJSON\<close> on the socket (socket,
  CommandId, Command, Param and the result of the write), closing the socket, the
  dispose hook, a caller's status handler, and an error handed to the error
  handlers and the connection states.
\<close>

datatype event =
    Written nat int string string "error option"
  | SocketClosed nat
  | Disposed
  | StatusChanged nat
  | ErrorReported error

text \<open>
  A DatabaseConnectionState is known here by what \<^verbatim>\<open>getOrAddConnectionState\<close>
  gives its constructor: the closures \<^verbatim>\<open>onConnect\<close> (it captures watchCommand
  and value) and \<^verbatim>\<open>onDisconnect\<close> (it captures the key s, unwatchCommand and
  value).  Its address is its position in \<open>states\<close>.
\<close>

record DatabaseConnectionState =
  onConnect :: "string \<times> string"
  onDisconnect :: "string \<times> string \<times> string"

text \<open>
  The fields of the struct that the modelled methods read or write.  A Go map is
  \<open>None\<close> when it is nil and \<open>Some m\<close> once made; a pointer to a future is
  its address in \<open>futures\<close>, and \<open>nextFuture\<close> is the next free address.
  \<open>client\<close> is the socket, \<open>None\<close> for a nil \<^verbatim>\<open>_client\<close>; \<open>onDispose\<close> says
  whether a hook was given; \<open>cts\<close> says whether cancellation was requested.
\<close>

record DatabaseChanges =
  commandId :: int
  database :: string
  onDispose :: bool
  client :: "nat option"
  task :: nat
  cts :: bool
  tcs :: nat
  confirmations :: "(int \<Rightarrow> nat option) option"
  counters :: "(string \<Rightarrow> nat option) option"
  immediateConnection :: int
  connectionStatusEventHandlerIdx :: int
  connectionStatusChanged :: "handler option list"
  futures :: "nat \<Rightarrow> CompletableFuture"
  nextFuture :: nat
  states :: "DatabaseConnectionState list"
  trace :: "event list"

text \<open>Reading a Go map: a nil map has no entry.\<close>

definition mapIndex :: "('k \<Rightarrow> 'v option) option \<Rightarrow> 'k \<Rightarrow> 'v option" where
  "mapIndex m k = (case m of None \<Rightarrow> None | Some t \<Rightarrow> t k)"

definition NewCompletableFuture :: "DatabaseChanges \<Rightarrow> nat \<times> DatabaseChanges" where
  "NewCompletableFuture c =
     (nextFuture c,
      c\<lparr>futures := (futures c)(nextFuture c := Pending), nextFuture := Suc (nextFuture c)\<rparr>)"

definition NewDatabaseConnectionState ::
  "DatabaseChanges \<Rightarrow> string \<times> string \<Rightarrow> string \<times> string \<times> string \<Rightarrow> nat \<times> DatabaseChanges" where
  "NewDatabaseConnectionState c onC onD =
     (length (states c), c\<lparr>states := states c @ [\<lparr>onConnect = onC, onDisconnect = onD\<rparr>]\<rparr>)"

definition isConnected :: "DatabaseChanges \<Rightarrow> bool" where
  "isConnected c = (client c \<noteq> None)"

definition onConnectionStatusChanged :: "DatabaseChanges \<Rightarrow> DatabaseChanges" where
  "onConnectionStatusChanged c =
     (if isConnected c then c\<lparr>futures := (futures c)(tcs c := Complete (futures c (tcs c)))\<rparr>
      else if IsDone (futures c (tcs c))
        then (case NewCompletableFuture c of (p, c1) \<Rightarrow> c1\<lparr>tcs := p\<rparr>)
        else c)"

definition addConnectionStatusChanged :: "DatabaseChanges \<Rightarrow> handler \<Rightarrow> int \<times> DatabaseChanges" where
  "addConnectionStatusChanged c h =
     (int (length (connectionStatusChanged c)),
      c\<lparr>connectionStatusChanged := connectionStatusChanged c @ [Some h]\<rparr>)"

definition removeConnectionStatusChanged :: "DatabaseChanges \<Rightarrow> int \<Rightarrow> DatabaseChanges outcome" where
  "removeConnectionStatusChanged c handlerIdx =
     (if handlerIdx \<noteq> - 1 then
        (if 0 \<le> handlerIdx \<and> nat handlerIdx < length (connectionStatusChanged c)
         then Return (c\<lparr>connectionStatusChanged := (connectionStatusChanged c)[nat handlerIdx := None]\<rparr>)
         else Panic IndexOutOfRange)
      else Return c)"

fun invokeHandlers :: "handler option list \<Rightarrow> DatabaseChanges \<Rightarrow> DatabaseChanges" where
  "invokeHandlers [] c = c"
| "invokeHandlers (None # fns) c = invokeHandlers fns c"
| "invokeHandlers (Some OwnStatusHandler # fns) c = invokeHandlers fns (onConnectionStatusChanged c)"
| "invokeHandlers (Some (ExternalHandler h) # fns) c =
     invokeHandlers fns (c\<lparr>trace := trace c @ [StatusChanged h]\<rparr>)"

definition invokeConnectionStatusChanged :: "DatabaseChanges \<Rightarrow> DatabaseChanges" where
  "invokeConnectionStatusChanged c = invokeHandlers (connectionStatusChanged c) c"

text \<open>
  \<^verbatim>\<open>NewDatabaseChanges\<close>: the struct literal names neither \<^verbatim>\<open>_confirmations\<close> nor
  \<^verbatim>\<open>_counters\<close>, nor \<^verbatim>\<open>_client\<close>, so they start as nil, \<^verbatim>\<open>_commandId\<close> and
  \<^verbatim>\<open>_immediateConnection\<close> as 0.  The futures \<^verbatim>\<open>_tcs\<close> and \<^verbatim>\<open>_task\<close> are the
  first two allocated.  The goroutine it starts (doWork) runs beside the caller
  and is not part of the value returned.
\<close>

definition NewDatabaseChanges :: "string \<Rightarrow> bool \<Rightarrow> DatabaseChanges" where
  "NewDatabaseChanges databaseName onDisposeGiven =
     (let res = \<lparr>commandId = 0, database = databaseName, onDispose = onDisposeGiven,
                 client = None, task = 1, cts = False, tcs = 0,
                 confirmations = None, counters = None, immediateConnection = 0,
                 connectionStatusEventHandlerIdx = - 1, connectionStatusChanged = [],
                 futures = (\<lambda>p. Pending), nextFuture = 2, states = [], trace = []\<rparr>
      in case addConnectionStatusChanged res OwnStatusHandler of
           (idx, res1) \<Rightarrow> res1\<lparr>connectionStatusEventHandlerIdx := idx\<rparr>)"

subsection \<open>The reader: processMessages\<close>

text \<open>
  \<^verbatim>\<open>notifyAboutError\<close>: nothing when cancellation was requested; otherwise the
  error goes to the error handlers and to every connection state (both outside
  this record: one event stands for them).
\<close>

definition notifyAboutError :: "DatabaseChanges \<Rightarrow> error \<Rightarrow> DatabaseChanges" where
  "notifyAboutError c e = (if cts c then c else c\<lparr>trace := trace c @ [ErrorReported e]\<rparr>)"

text \<open>
  The body of the inner loop of \<^verbatim>\<open>processMessages\<close>, for one frame.  The default
  case hands the decoded value to the connection states' listeners and writes no
  field of DatabaseChanges.
\<close>

definition processMessage :: "DatabaseChanges \<Rightarrow> msgNode \<Rightarrow> DatabaseChanges" where
  "processMessage changes msgNode =
     (let typ = fst (jsonGetAsString msgNode ''Type'') in
      if typ = ''Error'' then
        notifyAboutError changes (RuntimeException (fst (jsonGetAsString msgNode ''Error'')))
      else if typ = ''Confirm'' then
        (case jsonGetAsInt msgNode ''CommandId'' of
           (commandID, ok) \<Rightarrow>
             if ok then
               (case mapIndex (confirmations changes) commandID of
                  None \<Rightarrow> changes
                | Some future \<Rightarrow>
                    changes\<lparr>futures := (futures changes)(future := Complete (futures changes future))\<rparr>)
             else changes)
      else changes)"

text \<open>\<^verbatim>\<open>for _, msgNodeV := range msgArray\<close>: the frames in their order.\<close>

fun processBatch :: "DatabaseChanges \<Rightarrow> msgNode list \<Rightarrow> DatabaseChanges" where
  "processBatch changes [] = changes"
| "processBatch changes (msgNode # rest) = processBatch (processMessage changes msgNode) rest"

subsection \<open>send\<close>

text \<open>
  What the surroundings decide during one call of \<^verbatim>\<open>send\<close>: the result of
  \<^verbatim>\<open>WriteJSON\<close>; the frames the reader handles after the write and before the
  future is registered (the reader takes no lock); and the frames it handles
  while \<^verbatim>\<open>send\<close> waits, until the 15 seconds are over.
\<close>

record send_env =
  writeResult :: "error option"
  early :: "msgNode list"
  during :: "msgNode list"

text \<open>
  \<^verbatim>\<open>send\<close> returns the changed object and the Go error (\<open>None\<close> for nil).  The
  semaphore is free when a call starts: calls are taken one after another.
\<close>

definition send ::
  "DatabaseChanges \<Rightarrow> string \<Rightarrow> string \<Rightarrow> send_env \<Rightarrow> (DatabaseChanges \<times> error option) outcome" where
  "send c command val env =
     (case NewCompletableFuture c of
        (taskCompletionSource, c1) \<Rightarrow>
          (let currentCommandId = go_int (commandId c1 + 1);
               c2 = c1\<lparr>commandId := currentCommandId\<rparr>
           in case client c2 of
                None \<Rightarrow> Panic NilPointerDereference
              | Some sock \<Rightarrow>
                  (let err = writeResult env;
                       c3 = c2\<lparr>trace := trace c2 @ [Written sock currentCommandId command val err]\<rparr>;
                       c4 = processBatch c3 (early env)
                   in case confirmations c4 of
                        None \<Rightarrow> Panic NilMapAssignment
                      | Some m \<Rightarrow>
                          (let c5 = c4\<lparr>confirmations := Some (m(currentCommandId \<mapsto> taskCompletionSource))\<rparr>
                           in case err of
                                Some e \<Rightarrow> Return (c5, Some e)
                              | None \<Rightarrow>
                                  (let c6 = processBatch c5 (during env)
                                   in Return (c6, GetWithTimeout (futures c6 taskCompletionSource)))))))"

subsection \<open>getOrAddConnectionState and the subscribe methods\<close>

text \<open>
  \<^verbatim>\<open>counter.onConnect()\<close> runs the closure just built, \<^verbatim>\<open>c.send(watchCommand, value)\<close>,
  whose error is dropped.  The error result of \<^verbatim>\<open>getOrAddConnectionState\<close> is nil
  on every path, so the model returns the object and the state's address.
\<close>

definition getOrAddConnectionState ::
  "DatabaseChanges \<Rightarrow> string \<Rightarrow> string \<Rightarrow> string \<Rightarrow> string \<Rightarrow> send_env
     \<Rightarrow> (DatabaseChanges \<times> nat) outcome" where
  "getOrAddConnectionState c name watchCommand unwatchCommand val env =
     (case mapIndex (counters c) name of
        Some counter \<Rightarrow> Return (c, counter)
      | None \<Rightarrow>
          (case NewDatabaseConnectionState c (watchCommand, val) (name, unwatchCommand, val) of
             (counter, c1) \<Rightarrow>
               (case counters c1 of
                  None \<Rightarrow> Panic NilMapAssignment
                | Some m \<Rightarrow>
                    (let c2 = c1\<lparr>counters := Some (m(name \<mapsto> counter))\<rparr>
                     in if immediateConnection c2 = 0 then
                          (case send c2 watchCommand val env of
                             Panic f \<Rightarrow> Panic f
                           | Blocked \<Rightarrow> Blocked
                           | Return (c3, err) \<Rightarrow> Return (c3, counter))
                        else Return (c2, counter)))))"

text \<open>
  The common end of the subscribe methods: \<^verbatim>\<open>NewChangesObservable(typ, counter, filter)\<close>
  and a nil error.
\<close>

definition observable ::
  "ChangesType \<Rightarrow> (notification \<Rightarrow> bool outcome) \<Rightarrow> (DatabaseChanges \<times> nat) outcome
     \<Rightarrow> (DatabaseChanges \<times> (error + ChangesObservable)) outcome" where
  "observable typ f r =
     (case r of
        Panic x \<Rightarrow> Panic x
      | Blocked \<Rightarrow> Blocked
      | Return (c1, counter) \<Rightarrow> Return (c1, Inr (NewChangesObservable typ counter f)))"

text \<open>\<^verbatim>\<open>strconv.Itoa\<close>.\<close>

fun digitsOf :: "nat \<Rightarrow> string" where
  "digitsOf n =
     (if n < 10 then [char_of (48 + n)] else digitsOf (n div 10) @ [char_of (48 + n mod 10)])"

definition Itoa :: "int \<Rightarrow> string" where
  "Itoa i = (if i < 0 then CHR ''-'' # digitsOf (nat (- i)) else digitsOf (nat i))"

definition forIndex ::
  "(string \<Rightarrow> string \<Rightarrow> bool) \<Rightarrow> DatabaseChanges \<Rightarrow> string \<Rightarrow> send_env
     \<Rightarrow> (DatabaseChanges \<times> (error + ChangesObservable)) outcome" where
  "forIndex U c indexName env =
     observable ChangesType_INDEX (forIndex_filter U indexName)
       (getOrAddConnectionState c (''indexes/'' @ indexName) ''watch-index'' ''unwatch-index'' indexName env)"

definition forDocument ::
  "(string \<Rightarrow> string \<Rightarrow> bool) \<Rightarrow> DatabaseChanges \<Rightarrow> string \<Rightarrow> send_env
     \<Rightarrow> (DatabaseChanges \<times> (error + ChangesObservable)) outcome" where
  "forDocument U c docId env =
     observable ChangesType_DOCUMENT (forDocument_filter U docId)
       (getOrAddConnectionState c (''docs/'' @ docId) ''watch-doc'' ''unwatch-doc'' docId env)"

definition forAllDocuments ::
  "DatabaseChanges \<Rightarrow> send_env \<Rightarrow> (DatabaseChanges \<times> (error + ChangesObservable)) outcome" where
  "forAllDocuments c env =
     observable ChangesType_DOCUMENT filterAlwaysTrue
       (getOrAddConnectionState c ''all-docs'' ''watch-docs'' ''unwatch-docs'' [] env)"

definition forOperationId ::
  "DatabaseChanges \<Rightarrow> int \<Rightarrow> send_env \<Rightarrow> (DatabaseChanges \<times> (error + ChangesObservable)) outcome" where
  "forOperationId c operationId env =
     (let opIDStr = Itoa operationId in
      observable ChangesType_OPERATION (forOperationId_filter operationId)
        (getOrAddConnectionState c (''operations/'' @ opIDStr) ''watch-operation'' ''unwatch-operation''
           opIDStr env))"

definition forAllOperations ::
  "DatabaseChanges \<Rightarrow> send_env \<Rightarrow> (DatabaseChanges \<times> (error + ChangesObservable)) outcome" where
  "forAllOperations c env =
     observable ChangesType_OPERATION filterAlwaysTrue
       (getOrAddConnectionState c ''all-operations'' ''watch-operations'' ''unwatch-operations'' [] env)"

definition forAllIndexes ::
  "DatabaseChanges \<Rightarrow> send_env \<Rightarrow> (DatabaseChanges \<times> (error + ChangesObservable)) outcome" where
  "forAllIndexes c env =
     observable ChangesType_INDEX filterAlwaysTrue
       (getOrAddConnectionState c ''all-indexes'' ''watch-indexes'' ''unwatch-indexes'' [] env)"

definition forDocumentsStartingWith ::
  "(string \<Rightarrow> string \<Rightarrow> bool) \<Rightarrow> DatabaseChanges \<Rightarrow> string \<Rightarrow> send_env
     \<Rightarrow> (DatabaseChanges \<times> (error + ChangesObservable)) outcome" where
  "forDocumentsStartingWith U c docIdPrefix env =
     observable ChangesType_DOCUMENT (forDocumentsStartingWith_filter U docIdPrefix)
       (getOrAddConnectionState c (''prefixes/'' @ docIdPrefix) ''watch-prefix'' ''unwatch-prefix''
          docIdPrefix env)"

definition forDocumentsInCollection ::
  "(string \<Rightarrow> string \<Rightarrow> bool) \<Rightarrow> DatabaseChanges \<Rightarrow> string \<Rightarrow> send_env
     \<Rightarrow> (DatabaseChanges \<times> (error + ChangesObservable)) outcome" where
  "forDocumentsInCollection U c collectionName env =
     (if collectionName = [] then
        Return (c, Inl (IllegalArgumentException ''CollectionName cannot be empty''))
      else
        observable ChangesType_DOCUMENT (forDocumentsInCollection_filter U collectionName)
          (getOrAddConnectionState c (''collections/'' @ collectionName) ''watch-collection''
             ''unwatch-collection'' collectionName env))"

text \<open>
  \<^verbatim>\<open>UrlUtils_escapeDataString\<close> is not among the sources: it is the parameter
  \<open>escapeDataString\<close>.
\<close>

definition forDocumentsOfType ::
  "(string \<Rightarrow> string) \<Rightarrow> (string \<Rightarrow> string \<Rightarrow> bool) \<Rightarrow> DatabaseChanges \<Rightarrow> string \<Rightarrow> send_env
     \<Rightarrow> (DatabaseChanges \<times> (error + ChangesObservable)) outcome" where
  "forDocumentsOfType escapeDataString U c typeName env =
     (if typeName = [] then
        Return (c, Inl (IllegalArgumentException ''TypeName cannot be empty''))
      else
        (let encodedTypeName = escapeDataString typeName in
         observable ChangesType_DOCUMENT (forDocumentsOfType_filter U typeName)
           (getOrAddConnectionState c (''types/'' @ typeName) ''watch-type'' ''unwatch-type''
              encodedTypeName env)))"

subsection \<open>Close\<close>

text \<open>
  \<^verbatim>\<open>for _, confirmation := range c._confirmations { confirmation.Cancel(false) }\<close>:
  every future the table holds is cancelled; a nil table has none.
\<close>

definition cancelConfirmations :: "DatabaseChanges \<Rightarrow> DatabaseChanges" where
  "cancelConfirmations c =
     (case confirmations c of
        None \<Rightarrow> c
      | Some m \<Rightarrow> c\<lparr>futures := (\<lambda>p. if p \<in> ran m then Cancel (futures c p) else futures c p)\<rparr>)"

text \<open>
  \<^verbatim>\<open>c._task.Get()\<close> waits until the goroutine started by NewDatabaseChanges has
  completed \<^verbatim>\<open>_task\<close>.  \<open>worker\<close> is what that goroutine does while Close waits:
  \<open>None\<close> if it never completes the future, \<open>Some None\<close> for
  \<^verbatim>\<open>Complete(nil)\<close>, \<open>Some (Some err)\<close> for \<^verbatim>\<open>CompleteExceptionally(err)\<close>.
\<close>

definition taskGet :: "DatabaseChanges \<Rightarrow> error option option \<Rightarrow> DatabaseChanges outcome" where
  "taskGet c worker =
     (if IsDone (futures c (task c)) then Return c
      else (case worker of
              None \<Rightarrow> Blocked
            | Some None \<Rightarrow> Return (c\<lparr>futures := (futures c)(task c := Complete (futures c (task c)))\<rparr>)
            | Some (Some err) \<Rightarrow>
                Return (c\<lparr>futures := (futures c)(task c := CompleteExceptionally err (futures c (task c)))\<rparr>)))"

definition Close :: "DatabaseChanges \<Rightarrow> error option option \<Rightarrow> DatabaseChanges outcome" where
  "Close c worker =
     (let c1 = cancelConfirmations c in
      case client c1 of
        None \<Rightarrow> Panic NilPointerDereference
      | Some sock \<Rightarrow>
          (let c2 = c1\<lparr>trace := trace c1 @ [SocketClosed sock]\<rparr>;
               c3 = c2\<lparr>client := None\<rparr>;
               c4 = c3\<lparr>cts := True\<rparr>;
               c5 = c4\<lparr>counters := None\<rparr>
           in case taskGet c5 worker of
                Panic f \<Rightarrow> Panic f
              | Blocked \<Rightarrow> Blocked
              | Return c6 \<Rightarrow>
                  (let c7 = invokeConnectionStatusChanged c6 in
                   case removeConnectionStatusChanged c7 (connectionStatusEventHandlerIdx c7) of
                     Panic f \<Rightarrow> Panic f
                   | Blocked \<Rightarrow> Blocked
                   | Return c8 \<Rightarrow>
                       Return (if onDispose c8 then c8\<lparr>trace := trace c8 @ [Disposed]\<rparr> else c8))))"

section \<open>Notions the properties are stated with\<close>

subsection \<open>Reading the events\<close>

fun isWritten :: "event \<Rightarrow> bool" where
  "isWritten (Written sock i command param r) = True"
| "isWritten e = False"

text \<open>The frames written to the socket, in their order.\<close>

definition written :: "event list \<Rightarrow> event list" where
  "written evs = filter isWritten evs"

fun writtenId :: "event \<Rightarrow> int" where
  "writtenId (Written sock i command param r) = i"
| "writtenId e = 0"

text \<open>The command ids given out so far, in the order of the critical sections.\<close>

definition assigned :: "DatabaseChanges \<Rightarrow> int list" where
  "assigned c = map writtenId (written (trace c))"

definition socketCloses :: "event list \<Rightarrow> event list" where
  "socketCloses evs = filter (\<lambda>e. case e of SocketClosed sock \<Rightarrow> True | _ \<Rightarrow> False) evs"

definition disposals :: "event list \<Rightarrow> nat" where
  "disposals evs = length (filter (\<lambda>e. e = Disposed) evs)"

text \<open>The command id a frame confirms, if it is a Confirm frame carrying one.\<close>

definition confirmed :: "msgNode \<Rightarrow> int option" where
  "confirmed f =
     (if fst (jsonGetAsString f ''Type'') = ''Confirm''
      then (case jsonGetAsInt f ''CommandId'' of (n, ok) \<Rightarrow> if ok then Some n else None)
      else None)"

subsection \<open>Well-formed tables\<close>

text \<open>
  The confirmations table as \<^verbatim>\<open>send\<close> builds it: every entry points to an
  allocated future, and two command ids never share one (each \<^verbatim>\<open>send\<close>
  registers the future it has just made).
\<close>

definition confirmationsInv :: "DatabaseChanges \<Rightarrow> bool" where
  "confirmationsInv c =
     ((\<forall>k p. mapIndex (confirmations c) k = Some p \<longrightarrow> p < nextFuture c) \<and>
      (\<forall>k k' p. mapIndex (confirmations c) k = Some p \<and> mapIndex (confirmations c) k' = Some p
         \<longrightarrow> k = k'))"

text \<open>
  The command ids seen so far lie at or below the counter: those written to the
  socket, in increasing order, and the keys of the confirmations table.
\<close>

definition idsInv :: "DatabaseChanges \<Rightarrow> bool" where
  "idsInv c =
     (sorted_wrt (<) (assigned c) \<and>
      (\<forall>i \<in> set (assigned c). i \<le> commandId c) \<and>
      (\<forall>k p. mapIndex (confirmations c) k = Some p \<longrightarrow> k \<le> commandId c))"

text \<open>
  What a subscribe call needs to go through: the counters table is made and,
  when the call will send at once (\<^verbatim>\<open>_immediateConnection\<close> is 0), the socket is
  open and the confirmations table is made.
\<close>

definition ready :: "DatabaseChanges \<Rightarrow> bool" where
  "ready c =
     (counters c \<noteq> None \<and>
      (immediateConnection c = 0 \<longrightarrow> client c \<noteq> None \<and> confirmations c \<noteq> None))"

text \<open>
  What the status handlers may do to an object: allocate futures, complete or
  replace \<^verbatim>\<open>_tcs\<close>, and call the callers' handlers.
\<close>

definition handlersOnly :: "DatabaseChanges \<Rightarrow> DatabaseChanges \<Rightarrow> bool" where
  "handlersOnly c c' =
     (commandId c' = commandId c \<and> onDispose c' = onDispose c \<and> client c' = client c \<and>
      task c' = task c \<and> cts c' = cts c \<and> confirmations c' = confirmations c \<and>
      counters c' = counters c \<and> immediateConnection c' = immediateConnection c \<and>
      connectionStatusEventHandlerIdx c' = connectionStatusEventHandlerIdx c \<and>
      connectionStatusChanged c' = connectionStatusChanged c \<and>
      states c' = states c \<and>
      nextFuture c \<le> nextFuture c' \<and>
      written (trace c') = written (trace c) \<and>
      socketCloses (trace c') = socketCloses (trace c) \<and>
      disposals (trace c') = disposals (trace c) \<and>
      (client c = None \<longrightarrow> (\<forall>p < nextFuture c. futures c' p = futures c p)))"

text \<open>
  The index NewDatabaseChanges stored for its own handler, or -1, is what
  \<^verbatim>\<open>removeConnectionStatusChanged\<close> can take without an index out of range.
\<close>

definition handlerIdxValid :: "DatabaseChanges \<Rightarrow> bool" where
  "handlerIdxValid c =
     (connectionStatusEventHandlerIdx c = - 1 \<or>
      (0 \<le> connectionStatusEventHandlerIdx c \<and>
       nat (connectionStatusEventHandlerIdx c) < length (connectionStatusChanged c)))"

subsection \<open>Sequences of calls\<close>

text \<open>The subscribe methods and the argument each is called with.\<close>

datatype subscription =
    ForIndex string
  | ForDocument string
  | ForAllDocuments
  | ForOperationId int
  | ForAllOperations
  | ForAllIndexes
  | ForDocumentsStartingWith string
  | ForDocumentsInCollection string
  | ForDocumentsOfType string

fun subscribe ::
  "(string \<Rightarrow> string) \<Rightarrow> (string \<Rightarrow> string \<Rightarrow> bool) \<Rightarrow> DatabaseChanges \<Rightarrow> subscription \<Rightarrow> send_env
     \<Rightarrow> (DatabaseChanges \<times> (error + ChangesObservable)) outcome" where
  "subscribe esc U c (ForIndex indexName) env = forIndex U c indexName env"
| "subscribe esc U c (ForDocument docId) env = forDocument U c docId env"
| "subscribe esc U c ForAllDocuments env = forAllDocuments c env"
| "subscribe esc U c (ForOperationId operationId) env = forOperationId c operationId env"
| "subscribe esc U c ForAllOperations env = forAllOperations c env"
| "subscribe esc U c ForAllIndexes env = forAllIndexes c env"
| "subscribe esc U c (ForDocumentsStartingWith docIdPrefix) env = forDocumentsStartingWith U c docIdPrefix env"
| "subscribe esc U c (ForDocumentsInCollection collectionName) env =
     forDocumentsInCollection U c collectionName env"
| "subscribe esc U c (ForDocumentsOfType typeName) env = forDocumentsOfType esc U c typeName env"

text \<open>
  The watch-target key: the \<^verbatim>\<open>name\<close> each method passes to
  \<^verbatim>\<open>getOrAddConnectionState\<close>.
\<close>

fun watchTarget :: "subscription \<Rightarrow> string" where
  "watchTarget (ForIndex indexName) = ''indexes/'' @ indexName"
| "watchTarget (ForDocument docId) = ''docs/'' @ docId"
| "watchTarget ForAllDocuments = ''all-docs''"
| "watchTarget (ForOperationId operationId) = ''operations/'' @ Itoa operationId"
| "watchTarget ForAllOperations = ''all-operations''"
| "watchTarget ForAllIndexes = ''all-indexes''"
| "watchTarget (ForDocumentsStartingWith docIdPrefix) = ''prefixes/'' @ docIdPrefix"
| "watchTarget (ForDocumentsInCollection collectionName) = ''collections/'' @ collectionName"
| "watchTarget (ForDocumentsOfType typeName) = ''types/'' @ typeName"

text \<open>The calls that end at the argument check, before \<^verbatim>\<open>getOrAddConnectionState\<close>.\<close>

fun rejected :: "subscription \<Rightarrow> bool" where
  "rejected (ForDocumentsInCollection collectionName) = (collectionName = [])"
| "rejected (ForDocumentsOfType typeName) = (typeName = [])"
| "rejected s = False"

text \<open>Subscribe calls one after another, each on the object the one before left.\<close>

fun subscribeAll ::
  "(string \<Rightarrow> string) \<Rightarrow> (string \<Rightarrow> string \<Rightarrow> bool) \<Rightarrow> DatabaseChanges \<Rightarrow> (subscription \<times> send_env) list
     \<Rightarrow> (DatabaseChanges \<times> (error + ChangesObservable) list) outcome" where
  "subscribeAll esc U c [] = Return (c, [])"
| "subscribeAll esc U c ((s, env) # calls) =
     (case subscribe esc U c s env of
        Panic f \<Rightarrow> Panic f
      | Blocked \<Rightarrow> Blocked
      | Return (c1, r) \<Rightarrow>
          (case subscribeAll esc U c1 calls of
             Panic f \<Rightarrow> Panic f
           | Blocked \<Rightarrow> Blocked
           | Return (c2, rs) \<Rightarrow> Return (c2, r # rs)))"

text \<open>The keys of the calls that reach \<^verbatim>\<open>getOrAddConnectionState\<close>.\<close>

definition targets :: "(subscription \<times> send_env) list \<Rightarrow> string list" where
  "targets calls = map (\<lambda>call. watchTarget (fst call)) (filter (\<lambda>call. \<not> rejected (fst call)) calls)"

text \<open>The number of connection states ever constructed for a key.\<close>

definition createdFor :: "string \<Rightarrow> DatabaseConnectionState list \<Rightarrow> nat" where
  "createdFor k sts = length (filter (\<lambda>st. fst (onDisconnect st) = k) sts)"

text \<open>
  The operations on one object in the order of their critical sections: a call
  of \<^verbatim>\<open>send\<close>, a subscribe call, frames handled by the reader, and Close.
\<close>

datatype action =
    Send string string send_env
  | Subscribe subscription send_env
  | Receive "msgNode list"
  | CloseNow "error option option"

fun exec ::
  "(string \<Rightarrow> string) \<Rightarrow> (string \<Rightarrow> string \<Rightarrow> bool) \<Rightarrow> DatabaseChanges \<Rightarrow> action \<Rightarrow> DatabaseChanges outcome" where
  "exec esc U c (Send command val env) =
     (case send c command val env of
        Panic f \<Rightarrow> Panic f | Blocked \<Rightarrow> Blocked | Return (c1, err) \<Rightarrow> Return c1)"
| "exec esc U c (Subscribe s env) =
     (case subscribe esc U c s env of
        Panic f \<Rightarrow> Panic f | Blocked \<Rightarrow> Blocked | Return (c1, r) \<Rightarrow> Return c1)"
| "exec esc U c (Receive msgArray) = Return (processBatch c msgArray)"
| "exec esc U c (CloseNow worker) = Close c worker"

fun run ::
  "(string \<Rightarrow> string) \<Rightarrow> (string \<Rightarrow> string \<Rightarrow> bool) \<Rightarrow> DatabaseChanges \<Rightarrow> action list \<Rightarrow> DatabaseChanges outcome" where
  "run esc U c [] = Return c"
| "run esc U c (a # acts) =
     (case exec esc U c a of
        Panic f \<Rightarrow> Panic f | Blocked \<Rightarrow> Blocked | Return c1 \<Rightarrow> run esc U c1 acts)"

subsection \<open>Projections of a result\<close>

definition stateOf :: "('s \<times> 'r) outcome \<Rightarrow> 's option" where
  "stateOf r = (case r of Return (c, x) \<Rightarrow> Some c | _ \<Rightarrow> None)"

definition resultOf :: "('s \<times> 'r) outcome \<Rightarrow> 'r option" where
  "resultOf r = (case r of Return (c, x) \<Rightarrow> Some x | _ \<Rightarrow> None)"

subsection \<open>Example values\<close>

text \<open>
  A connected object: the value of \<^verbatim>\<open>NewDatabaseChanges\<close> with the socket open
  and both tables made.
\<close>

definition connectedExample :: DatabaseChanges where
  "connectedExample =
     (NewDatabaseChanges ''db'' True)
       \<lparr>client := Some 0, confirmations := Some Map.empty, counters := Some Map.empty\<rparr>"

text \<open>The write succeeds and no frame arrives.\<close>

definition quietEnv :: send_env where
  "quietEnv = \<lparr>writeResult = None, early = [], during = []\<rparr>"

definition confirmFrame :: "int \<Rightarrow> msgNode" where
  "confirmFrame n = [''Type'' \<mapsto> JString ''Confirm'', ''CommandId'' \<mapsto> JNumber n]"

text \<open>The connected object after two commands that were sent and not confirmed.\<close>

definition twoPending :: DatabaseChanges where
  "twoPending =
     the (stateOf (send (the (stateOf (send connectedExample ''watch-doc'' ''orders/1'' quietEnv)))
                     ''watch-doc'' ''orders/2'' quietEnv))"

text \<open>
  Stand-ins for the two parameters in the examples, whose strings are ASCII: the
  comparison of non-ASCII rests is never reached, and nothing needs escaping.
\<close>

definition noFold :: "string \<Rightarrow> string \<Rightarrow> bool" where
  "noFold s t = (s = t)"

definition noEscape :: "string \<Rightarrow> string" where
  "noEscape s = s"

text \<open>An escaping function for the examples: it percent-escapes the space.\<close>

definition exampleEscape :: "string \<Rightarrow> string" where
  "exampleEscape s = concat (map (\<lambda>ch. if ch = CHR '' '' then ''%20'' else [ch]) s)"

definition exampleCalls :: "(subscription \<times> send_env) list" where
  "exampleCalls =
     [(ForDocument ''orders/1'', quietEnv), (ForIndex ''Orders/ByDate'', quietEnv),
      (ForDocument ''orders/1'', quietEnv)]"

definition exampleActions :: "action list" where
  "exampleActions =
     [Send ''watch-doc'' ''orders/1'' quietEnv, Receive [confirmFrame 1],
      Subscribe (ForIndex ''Orders/ByDate'') quietEnv, Send ''unwatch-doc'' ''orders/1'' quietEnv]"

definition exampleChange :: DocumentChange where
  "exampleChange = \<lparr>ID = ''orders/1'', CollectionName = ''Orders'', TypeName = ''Order''\<rparr>"

section \<open>Basic facts\<close>

lemma written_append [simp]: "written (xs @ ys) = written xs @ written ys"
  by (simp add: written_def)

lemma written_simps [simp]:
  "written [] = []"
  "written (Written sock i cmd p r # evs) = Written sock i cmd p r # written evs"
  "written (ErrorReported e # evs) = written evs"
  "written (SocketClosed sock # evs) = written evs"
  "written (Disposed # evs) = written evs"
  "written (StatusChanged h # evs) = written evs"
  by (simp_all add: written_def)

lemma mapIndex_simps [simp]:
  "mapIndex None k = None"
  "mapIndex (Some m) k = m k"
  by (simp_all add: mapIndex_def)

subsection \<open>Case folding\<close>

lemma of_char_toLowerASCII:
  "(of_char (toLowerASCII a) :: nat) =
     (if 65 \<le> (of_char a :: nat) \<and> (of_char a :: nat) \<le> 90 then of_char a + 32 else of_char a)"
  by (simp add: toLowerASCII_def)

lemma toLowerASCII_eq_iff:
  "(toLowerASCII a = toLowerASCII b) =
     ((of_char (toLowerASCII a) :: nat) = of_char (toLowerASCII b))"
  by simp

lemma asciiFold_iff: "asciiFold a b = (toLowerASCII a = toLowerASCII b)"
  unfolding toLowerASCII_eq_iff of_char_toLowerASCII asciiFold_def Let_def
  by (auto simp: min_def max_def)

text \<open>On ASCII strings EqualFold is equality of the lower-cased strings.\<close>

lemma EqualFold_ascii:
  "isASCII s \<Longrightarrow> isASCII t \<Longrightarrow> EqualFold U s t = (map toLowerASCII s = map toLowerASCII t)"
proof (induction U s t rule: EqualFold.induct)
  case (4 U a s b t)
  then show ?case
    by (auto simp add: isASCII_def asciiFold_iff)
qed simp_all

lemma isASCII_take: "isASCII s \<Longrightarrow> isASCII (take n s)"
  by (auto simp: isASCII_def list_all_iff dest: in_set_takeD)

subsection \<open>The reader writes futures and events only\<close>

lemma processMessage_fields [simp]:
  "commandId (processMessage c f) = commandId c"
  "database (processMessage c f) = database c"
  "onDispose (processMessage c f) = onDispose c"
  "client (processMessage c f) = client c"
  "task (processMessage c f) = task c"
  "cts (processMessage c f) = cts c"
  "tcs (processMessage c f) = tcs c"
  "confirmations (processMessage c f) = confirmations c"
  "counters (processMessage c f) = counters c"
  "immediateConnection (processMessage c f) = immediateConnection c"
  "connectionStatusEventHandlerIdx (processMessage c f) = connectionStatusEventHandlerIdx c"
  "connectionStatusChanged (processMessage c f) = connectionStatusChanged c"
  "nextFuture (processMessage c f) = nextFuture c"
  "states (processMessage c f) = states c"
  "written (trace (processMessage c f)) = written (trace c)"
  by (simp_all add: processMessage_def notifyAboutError_def Let_def split: prod.splits option.splits)

lemma processBatch_fields [simp]:
  "commandId (processBatch c fs) = commandId c"
  "database (processBatch c fs) = database c"
  "onDispose (processBatch c fs) = onDispose c"
  "client (processBatch c fs) = client c"
  "task (processBatch c fs) = task c"
  "cts (processBatch c fs) = cts c"
  "tcs (processBatch c fs) = tcs c"
  "confirmations (processBatch c fs) = confirmations c"
  "counters (processBatch c fs) = counters c"
  "immediateConnection (processBatch c fs) = immediateConnection c"
  "connectionStatusEventHandlerIdx (processBatch c fs) = connectionStatusEventHandlerIdx c"
  "connectionStatusChanged (processBatch c fs) = connectionStatusChanged c"
  "nextFuture (processBatch c fs) = nextFuture c"
  "states (processBatch c fs) = states c"
  "written (trace (processBatch c fs)) = written (trace c)"
  by (induction fs arbitrary: c; simp)+

text \<open>A frame changes at most the future its command id is registered with.\<close>

lemma processMessage_futures:
  "futures (processMessage c f) p =
     (case confirmed f of
        None \<Rightarrow> futures c p
      | Some n \<Rightarrow> if mapIndex (confirmations c) n = Some p then Complete (futures c p) else futures c p)"
  by (auto simp add: processMessage_def notifyAboutError_def confirmed_def Let_def
        jsonGetAsString_def
        split: prod.splits option.splits)

lemma processBatch_untouched:
  assumes "\<forall>f \<in> set fs. \<forall>n. confirmed f = Some n \<longrightarrow> mapIndex (confirmations c) n \<noteq> Some p"
  shows "futures (processBatch c fs) p = futures c p"
  using assms
proof (induction fs arbitrary: c)
  case Nil
  then show ?case by simp
next
  case (Cons f fs)
  have "futures (processMessage c f) p = futures c p"
    using Cons.prems by (auto simp: processMessage_futures split: option.splits)
  moreover have "futures (processBatch (processMessage c f) fs) p = futures (processMessage c f) p"
    using Cons.prems by (intro Cons.IH) simp
  ultimately show ?case by simp
qed

subsection \<open>send\<close>

lemma send_returns:
  assumes "client c = Some sock" and "confirmations c = Some m"
  shows "\<exists>c'. send c command val env =
           Return (c', case writeResult env of Some e \<Rightarrow> Some e
                        | None \<Rightarrow> GetWithTimeout (futures c' (nextFuture c)))"
  using assms
  by (simp add: send_def NewCompletableFuture_def Let_def split: option.splits)

lemma send_Return:
  assumes "send c command val env = Return (c', err)"
  shows "\<exists>sock m. client c = Some sock \<and> confirmations c = Some m \<and>
           confirmations c' = Some (m(go_int (commandId c + 1) \<mapsto> nextFuture c)) \<and>
           written (trace c') =
             written (trace c) @ [Written sock (go_int (commandId c + 1)) command val (writeResult env)]"
    and "commandId c' = go_int (commandId c + 1)"
    and "client c' = client c"
    and "counters c' = counters c"
    and "states c' = states c"
    and "nextFuture c' = Suc (nextFuture c)"
    and "immediateConnection c' = immediateConnection c"
    and "cts c' = cts c"
    and "onDispose c' = onDispose c"
    and "err = (case writeResult env of Some e \<Rightarrow> Some e
                | None \<Rightarrow> GetWithTimeout (futures c' (nextFuture c)))"
  using assms
  by (auto simp add: send_def NewCompletableFuture_def Let_def split: option.splits)

section \<open>Filters\<close>

lemma observable_Return:
  assumes "observable typ f r = Return (c1, x)"
  shows "\<exists>counter. r = Return (c1, counter) \<and> x = Inr (NewChangesObservable typ counter f)"
  using assms by (auto simp: observable_def split: outcome.splits)

lemma forDocument_filterFn:
  assumes "forDocument U c docId env = Return (c1, Inr obs)"
  shows "filterFn obs = forDocument_filter U docId"
  using assms by (auto simp: forDocument_def NewChangesObservable_def dest!: observable_Return)

lemma forDocumentsStartingWith_filterFn:
  assumes "forDocumentsStartingWith U c docIdPrefix env = Return (c1, Inr obs)"
  shows "filterFn obs = forDocumentsStartingWith_filter U docIdPrefix"
  using assms
  by (auto simp: forDocumentsStartingWith_def NewChangesObservable_def dest!: observable_Return)

text \<open>
  C4.  Let \<open>obsD\<close> be the observable \<^verbatim>\<open>forDocument(docId)\<close> returned and \<open>obsP\<close> the
  one \<^verbatim>\<open>forDocumentsStartingWith(docIdPrefix)\<close> returned, and let \<open>v\<close> be a
  document change.  If the id of \<open>v\<close> is "orders/1", the filter of \<open>obsD\<close> gives
  true for docId "orders/1" and false for "orders/2", and the filter of \<open>obsP\<close>
  gives true for the prefix "orders/" and false for "users/".  On ASCII strings
  the first filter decides equality of the lower-cased id and docId, the second
  equality of the lower-cased prefix and the lower-cased first bytes of the id;
  a prefix longer than the id gives false, and no filter panics on a document
  change.
\<close>

theorem filter_correctness:
  assumes "forDocument U c docId env = Return (c1, Inr obsD)"
    and "forDocumentsStartingWith U c' docIdPrefix env' = Return (c2, Inr obsP)"
  shows "(ID v = ''orders/1'' \<and> docId = ''orders/1'' \<longrightarrow> filterFn obsD (DocumentChangeN v) = Return True) \<and>
         (ID v = ''orders/1'' \<and> docId = ''orders/2'' \<longrightarrow> filterFn obsD (DocumentChangeN v) = Return False) \<and>
         (ID v = ''orders/1'' \<and> docIdPrefix = ''orders/'' \<longrightarrow> filterFn obsP (DocumentChangeN v) = Return True) \<and>
         (ID v = ''orders/1'' \<and> docIdPrefix = ''users/'' \<longrightarrow> filterFn obsP (DocumentChangeN v) = Return False) \<and>
         (isASCII (ID v) \<and> isASCII docId \<longrightarrow>
            filterFn obsD (DocumentChangeN v) = Return (map toLowerASCII (ID v) = map toLowerASCII docId)) \<and>
         (isASCII (ID v) \<and> isASCII docIdPrefix \<and> length docIdPrefix \<le> length (ID v) \<longrightarrow>
            filterFn obsP (DocumentChangeN v) =
              Return (map toLowerASCII (take (length docIdPrefix) (ID v)) = map toLowerASCII docIdPrefix)) \<and>
         (length docIdPrefix > length (ID v) \<longrightarrow> filterFn obsP (DocumentChangeN v) = Return False)"
proof -
  have d: "filterFn obsD = forDocument_filter U docId"
    using assms(1) by (rule forDocument_filterFn)
  have p: "filterFn obsP = forDocumentsStartingWith_filter U docIdPrefix"
    using assms(2) by (rule forDocumentsStartingWith_filterFn)
  have 1: "ID v = ''orders/1'' \<and> docId = ''orders/1'' \<longrightarrow> filterFn obsD (DocumentChangeN v) = Return True"
    by (simp add: d asciiFold_def)
  have 2: "ID v = ''orders/1'' \<and> docId = ''orders/2'' \<longrightarrow> filterFn obsD (DocumentChangeN v) = Return False"
    by (simp add: d asciiFold_def)
  have 3: "ID v = ''orders/1'' \<and> docIdPrefix = ''orders/'' \<longrightarrow> filterFn obsP (DocumentChangeN v) = Return True"
    by (simp add: p asciiFold_def)
  have 4: "ID v = ''orders/1'' \<and> docIdPrefix = ''users/'' \<longrightarrow> filterFn obsP (DocumentChangeN v) = Return False"
    by (simp add: p asciiFold_def)
  have 5: "isASCII (ID v) \<and> isASCII docId \<longrightarrow>
            filterFn obsD (DocumentChangeN v) = Return (map toLowerASCII (ID v) = map toLowerASCII docId)"
    by (simp add: d EqualFold_ascii)
  have 6: "isASCII (ID v) \<and> isASCII docIdPrefix \<and> length docIdPrefix \<le> length (ID v) \<longrightarrow>
            filterFn obsP (DocumentChangeN v) =
              Return (map toLowerASCII (take (length docIdPrefix) (ID v)) = map toLowerASCII docIdPrefix)"
    by (simp add: p EqualFold_ascii isASCII_take)
  have 7: "length docIdPrefix > length (ID v) \<longrightarrow> filterFn obsP (DocumentChangeN v) = Return False"
    by (simp add: p)
  from 1 2 3 4 5 6 7 show ?thesis by blast
qed

section \<open>getOrAddConnectionState\<close>

lemma getOrAdd_present:
  assumes "mapIndex (counters c) name = Some p"
  shows "getOrAddConnectionState c name w u v env = Return (c, p)"
  using assms by (simp add: getOrAddConnectionState_def)

lemma getOrAdd_absent:
  assumes "mapIndex (counters c) name = None" and "ready c"
  shows "\<exists>c'. getOrAddConnectionState c name w u v env = Return (c', length (states c)) \<and>
           ready c' \<and>
           (\<exists>m. counters c = Some m \<and> counters c' = Some (m(name \<mapsto> length (states c)))) \<and>
           states c' = states c @ [\<lparr>onConnect = (w, v), onDisconnect = (name, u, v)\<rparr>] \<and>
           immediateConnection c' = immediateConnection c \<and>
           client c' = client c \<and>
           (if immediateConnection c = 0
            then (\<exists>sock. client c = Some sock \<and>
                    written (trace c') =
                      written (trace c) @ [Written sock (go_int (commandId c + 1)) w v (writeResult env)])
            else c' = c\<lparr>states := states c', counters := counters c'\<rparr>)"
proof -
  obtain m where m: "counters c = Some m"
    using assms(2) by (auto simp: ready_def)
  define c2 where
    "c2 = c\<lparr>states := states c @ [\<lparr>onConnect = (w, v), onDisconnect = (name, u, v)\<rparr>],
            counters := Some (m(name \<mapsto> length (states c)))\<rparr>"
  show ?thesis
  proof (cases "immediateConnection c = 0")
    case False
    have "getOrAddConnectionState c name w u v env = Return (c2, length (states c))"
      using assms(1) m False
      by (simp add: getOrAddConnectionState_def NewDatabaseConnectionState_def Let_def c2_def)
    moreover have "ready c2"
      using assms(2) False by (simp add: ready_def c2_def)
    ultimately show ?thesis
      using m False by (simp add: c2_def)
  next
    case True
    then obtain sock cm where cl: "client c2 = Some sock" "confirmations c2 = Some cm"
      using assms(2) by (auto simp: ready_def c2_def)
    obtain c3 err where s: "send c2 w v env = Return (c3, err)"
      using send_returns[OF cl] by blast
    have g: "getOrAddConnectionState c name w u v env = Return (c3, length (states c))"
      using assms(1) m True s
      by (simp add: getOrAddConnectionState_def NewDatabaseConnectionState_def Let_def c2_def)
    note r = send_Return[OF s]
    have "ready c3"
      using r(1) r(3) r(4) by (auto simp: ready_def c2_def)
    moreover have "written (trace c3) =
        written (trace c) @ [Written sock (go_int (commandId c + 1)) w v (writeResult env)]"
      using r(1) cl by (auto simp: c2_def)
    ultimately show ?thesis
      using g m True r(3) r(4) r(5) r(7) cl by (simp add: c2_def)
  qed
qed

lemma subscribe_rejected:
  assumes "rejected s"
  shows "\<exists>e. subscribe esc U c s env = Return (c, Inl e)"
  using assms
  by (cases s) (simp_all add: forDocumentsInCollection_def forDocumentsOfType_def)

lemma subscribe_getOrAdd:
  assumes "\<not> rejected s"
  shows "\<exists>typ f w u v. \<forall>c env. subscribe esc U c s env =
           observable typ f (getOrAddConnectionState c (watchTarget s) w u v env)"
  using assms
  by (cases s)
     (simp_all add: forIndex_def forDocument_def forAllDocuments_def forOperationId_def
        forAllOperations_def forAllIndexes_def forDocumentsStartingWith_def
        forDocumentsInCollection_def forDocumentsOfType_def Let_def, blast+)

lemma createdFor_append [simp]:
  "createdFor k (sts @ [st]) = createdFor k sts + (if fst (onDisconnect st) = k then 1 else 0)"
  by (simp add: createdFor_def)

text \<open>One subscribe call that passes the argument check, on a ready object.\<close>

lemma subscribe_step:
  assumes "ready c" and "\<not> rejected s"
  shows "\<exists>c' obs. subscribe esc U c s env = Return (c', Inr obs) \<and> ready c' \<and>
           mapIndex (counters c') (watchTarget s) = Some (connectionState obs) \<and>
           (\<forall>k. k \<noteq> watchTarget s \<longrightarrow> mapIndex (counters c') k = mapIndex (counters c) k) \<and>
           (\<forall>q. mapIndex (counters c) (watchTarget s) = Some q \<longrightarrow> connectionState obs = q) \<and>
           (\<forall>k. createdFor k (states c') =
              createdFor k (states c) +
                (if mapIndex (counters c) k = None \<and> k = watchTarget s then 1 else 0))"
proof -
  obtain ty f w u v where sub: "\<forall>c env. subscribe esc U c s env =
      observable ty f (getOrAddConnectionState c (watchTarget s) w u v env)"
    using subscribe_getOrAdd[OF assms(2), of esc U] by blast
  show ?thesis
  proof (cases "mapIndex (counters c) (watchTarget s)")
    case (Some q)
    have "subscribe esc U c s env = Return (c, Inr (NewChangesObservable ty q f))"
      by (simp add: sub getOrAdd_present[OF Some] observable_def)
    then show ?thesis
      using Some assms(1) by (auto simp: NewChangesObservable_def)
  next
    case None
    obtain c' m where g: "getOrAddConnectionState c (watchTarget s) w u v env = Return (c', length (states c))"
      and r: "ready c'"
      and m: "counters c = Some m" "counters c' = Some (m(watchTarget s \<mapsto> length (states c)))"
      and st: "states c' = states c @ [\<lparr>onConnect = (w, v), onDisconnect = (watchTarget s, u, v)\<rparr>]"
      using getOrAdd_absent[OF None assms(1), of w u v env] by blast
    have "subscribe esc U c s env = Return (c', Inr (NewChangesObservable ty (length (states c)) f))"
      by (simp add: sub g observable_def)
    then show ?thesis
      using None r m st by (auto simp: NewChangesObservable_def)
  qed
qed

lemma targets_Cons:
  "targets ((s, env) # calls) = (if rejected s then targets calls else watchTarget s # targets calls)"
  by (simp add: targets_def)

lemma subscribeAll_ready:
  assumes "ready c"
  shows "\<exists>c' rs. subscribeAll esc U c calls = Return (c', rs) \<and> length rs = length calls \<and>
           ready c' \<and>
           (\<forall>k q. mapIndex (counters c) k = Some q \<longrightarrow> mapIndex (counters c') k = Some q) \<and>
           (\<forall>(call, r) \<in> set (zip calls rs).
              if rejected (fst call) then (\<exists>e. r = Inl e)
              else (\<exists>obs. r = Inr obs \<and>
                      mapIndex (counters c') (watchTarget (fst call)) = Some (connectionState obs))) \<and>
           (\<forall>k. createdFor k (states c') =
              createdFor k (states c) +
                (if mapIndex (counters c) k = None \<and> k \<in> set (targets calls) then 1 else 0))"
  using assms
proof (induction calls arbitrary: c)
  case Nil
  then show ?case by (simp add: targets_def)
next
  case (Cons call calls)
  obtain s env where call: "call = (s, env)" by (cases call)
  show ?case
  proof (cases "rejected s")
    case True
    obtain e where 1: "subscribe esc U c s env = Return (c, Inl e)"
      using subscribe_rejected[OF True] by blast
    obtain c' rs where 2: "subscribeAll esc U c calls = Return (c', rs)" "length rs = length calls"
      "ready c'"
      "\<forall>k q. mapIndex (counters c) k = Some q \<longrightarrow> mapIndex (counters c') k = Some q"
      "\<forall>(call, r) \<in> set (zip calls rs).
              if rejected (fst call) then (\<exists>e. r = Inl e)
              else (\<exists>obs. r = Inr obs \<and>
                      mapIndex (counters c') (watchTarget (fst call)) = Some (connectionState obs))"
      "\<forall>k. createdFor k (states c') =
              createdFor k (states c) +
                (if mapIndex (counters c) k = None \<and> k \<in> set (targets calls) then 1 else 0)"
      using Cons.IH[OF Cons.prems] by blast
    have "subscribeAll esc U c (call # calls) = Return (c', Inl e # rs)"
      using 1 2(1) by (simp add: call)
    then show ?thesis
      using 2 True by (simp add: call targets_Cons)
  next
    case False
    obtain c1 obs where 1: "subscribe esc U c s env = Return (c1, Inr obs)" "ready c1"
      "mapIndex (counters c1) (watchTarget s) = Some (connectionState obs)"
      "\<forall>k. k \<noteq> watchTarget s \<longrightarrow> mapIndex (counters c1) k = mapIndex (counters c) k"
      "\<forall>q. mapIndex (counters c) (watchTarget s) = Some q \<longrightarrow> connectionState obs = q"
      "\<forall>k. createdFor k (states c1) =
              createdFor k (states c) +
                (if mapIndex (counters c) k = None \<and> k = watchTarget s then 1 else 0)"
      using subscribe_step[OF Cons.prems False, of esc U env] by blast
    obtain c' rs where 2: "subscribeAll esc U c1 calls = Return (c', rs)" "length rs = length calls"
      "ready c'"
      "\<forall>k q. mapIndex (counters c1) k = Some q \<longrightarrow> mapIndex (counters c') k = Some q"
      "\<forall>(call, r) \<in> set (zip calls rs).
              if rejected (fst call) then (\<exists>e. r = Inl e)
              else (\<exists>obs. r = Inr obs \<and>
                      mapIndex (counters c') (watchTarget (fst call)) = Some (connectionState obs))"
      "\<forall>k. createdFor k (states c') =
              createdFor k (states c1) +
                (if mapIndex (counters c1) k = None \<and> k \<in> set (targets calls) then 1 else 0)"
      using Cons.IH[OF 1(2)] by blast
    have run: "subscribeAll esc U c (call # calls) = Return (c', Inr obs # rs)"
      using 1(1) 2(1) by (simp add: call)
    have mono: "\<forall>k q. mapIndex (counters c) k = Some q \<longrightarrow> mapIndex (counters c') k = Some q"
    proof (intro allI impI)
      fix k q assume kq: "mapIndex (counters c) k = Some q"
      have "mapIndex (counters c1) k = Some q"
      proof (cases "k = watchTarget s")
        case True
        then show ?thesis using kq 1(3) 1(5) by auto
      next
        case False
        then show ?thesis using kq 1(4) by auto
      qed
      then show "mapIndex (counters c') k = Some q" using 2(4) by blast
    qed
    have first: "mapIndex (counters c') (watchTarget s) = Some (connectionState obs)"
      using 1(3) 2(4) by blast
    have count: "\<forall>k. createdFor k (states c') =
              createdFor k (states c) +
                (if mapIndex (counters c) k = None \<and> k \<in> set (targets (call # calls)) then 1 else 0)"
    proof
      fix k
      show "createdFor k (states c') =
              createdFor k (states c) +
                (if mapIndex (counters c) k = None \<and> k \<in> set (targets (call # calls)) then 1 else 0)"
      proof (cases "k = watchTarget s")
        case True
        then show ?thesis
          using 1(3) 1(6) 2(6) False by (auto simp: call targets_Cons)
      next
        case nk: False
        then have "mapIndex (counters c1) k = mapIndex (counters c) k" using 1(4) by blast
        then show ?thesis
          using 1(6) 2(6) False nk by (auto simp: call targets_Cons)
      qed
    qed
    show ?thesis
      using run 2(2) 2(3) mono first 2(5) count False by (simp add: call)
  qed
qed

lemma ready_connectedExample: "ready connectedExample"
  by (simp add: ready_def connectedExample_def NewDatabaseChanges_def addConnectionStatusChanged_def)

text \<open>
  C1.  On an object that is ready for subscribe calls, every sequence of subscribe
  calls returns; each call that passes the argument check returns an observable
  on the connection state that the counters table holds for its watch-target key
  when the sequence is over; two calls with the same key return the same
  connection state; a state that was in the table before is kept; and for every
  key exactly one connection state is constructed if the key was not in the
  table and some call has it, none otherwise.
\<close>

theorem one_state_per_key:
  assumes "ready c"
  shows "\<exists>c' rs. subscribeAll esc U c calls = Return (c', rs) \<and> length rs = length calls \<and>
           (\<forall>i<length calls. \<not> rejected (fst (calls ! i)) \<longrightarrow>
              (\<exists>obs. rs ! i = Inr obs \<and>
                 mapIndex (counters c') (watchTarget (fst (calls ! i))) = Some (connectionState obs))) \<and>
           (\<forall>i<length calls. \<forall>j<length calls. \<forall>oi oj.
              rs ! i = Inr oi \<and> rs ! j = Inr oj \<and>
              watchTarget (fst (calls ! i)) = watchTarget (fst (calls ! j))
                \<longrightarrow> connectionState oi = connectionState oj) \<and>
           (\<forall>k q. mapIndex (counters c) k = Some q \<longrightarrow> mapIndex (counters c') k = Some q) \<and>
           (\<forall>k. createdFor k (states c') =
              createdFor k (states c) +
                (if mapIndex (counters c) k = None \<and> k \<in> set (targets calls) then 1 else 0))"
proof -
  obtain c' rs where r: "subscribeAll esc U c calls = Return (c', rs)" "length rs = length calls"
    and mono: "\<forall>k q. mapIndex (counters c) k = Some q \<longrightarrow> mapIndex (counters c') k = Some q"
    and each: "\<forall>(call, r) \<in> set (zip calls rs).
              if rejected (fst call) then (\<exists>e. r = Inl e)
              else (\<exists>obs. r = Inr obs \<and>
                      mapIndex (counters c') (watchTarget (fst call)) = Some (connectionState obs))"
    and count: "\<forall>k. createdFor k (states c') =
              createdFor k (states c) +
                (if mapIndex (counters c) k = None \<and> k \<in> set (targets calls) then 1 else 0)"
    using subscribeAll_ready[OF assms, of esc U calls] by blast
  have at: "if rejected (fst (calls ! i)) then (\<exists>e. rs ! i = Inl e)
            else (\<exists>obs. rs ! i = Inr obs \<and>
                    mapIndex (counters c') (watchTarget (fst (calls ! i))) = Some (connectionState obs))"
    if "i < length calls" for i
  proof -
    have "(calls ! i, rs ! i) \<in> set (zip calls rs)"
      using that r(2) by (auto simp: set_zip)
    then show ?thesis using each by blast
  qed
  have a: "\<forall>i<length calls. \<not> rejected (fst (calls ! i)) \<longrightarrow>
              (\<exists>obs. rs ! i = Inr obs \<and>
                 mapIndex (counters c') (watchTarget (fst (calls ! i))) = Some (connectionState obs))"
    using at by presburger
  have b: "\<forall>i<length calls. \<forall>j<length calls. \<forall>oi oj.
              rs ! i = Inr oi \<and> rs ! j = Inr oj \<and>
              watchTarget (fst (calls ! i)) = watchTarget (fst (calls ! j))
                \<longrightarrow> connectionState oi = connectionState oj"
  proof (intro allI impI)
    fix i j oi oj
    assume i: "i < length calls" and j: "j < length calls"
      and h: "rs ! i = Inr oi \<and> rs ! j = Inr oj \<and>
              watchTarget (fst (calls ! i)) = watchTarget (fst (calls ! j))"
    have "mapIndex (counters c') (watchTarget (fst (calls ! i))) = Some (connectionState oi)"
      using at[OF i] h by (auto split: if_splits)
    moreover have "mapIndex (counters c') (watchTarget (fst (calls ! j))) = Some (connectionState oj)"
      using at[OF j] h by (auto split: if_splits)
    ultimately show "connectionState oi = connectionState oj"
      using h by simp
  qed
  show ?thesis
    using r a b mono count by blast
qed

theorem one_state_per_key_witness:
  "ready connectedExample \<and>
   (\<exists>c' rs. subscribeAll noEscape noFold connectedExample exampleCalls = Return (c', rs) \<and>
      length rs = 3 \<and>
      (\<exists>o0 o2. rs ! 0 = Inr o0 \<and> rs ! 2 = Inr o2 \<and> connectionState o0 = connectionState o2) \<and>
      createdFor ''docs/orders/1'' (states c') = 1)"
proof -
  obtain c' rs where r: "subscribeAll noEscape noFold connectedExample exampleCalls = Return (c', rs)"
      "length rs = length exampleCalls"
    and a: "\<forall>i<length exampleCalls. \<not> rejected (fst (exampleCalls ! i)) \<longrightarrow>
              (\<exists>obs. rs ! i = Inr obs \<and>
                 mapIndex (counters c') (watchTarget (fst (exampleCalls ! i))) = Some (connectionState obs))"
    and count: "\<forall>k. createdFor k (states c') =
              createdFor k (states connectedExample) +
                (if mapIndex (counters connectedExample) k = None \<and> k \<in> set (targets exampleCalls)
                 then 1 else 0)"
    using one_state_per_key[OF ready_connectedExample, of noEscape noFold exampleCalls] by blast
  have len: "length exampleCalls = 3" by (simp add: exampleCalls_def)
  obtain o0 where o0: "rs ! 0 = Inr o0"
      "mapIndex (counters c') ''docs/orders/1'' = Some (connectionState o0)"
    using a[rule_format, of 0] by (auto simp: exampleCalls_def)
  obtain o2 where o2: "rs ! 2 = Inr o2"
      "mapIndex (counters c') ''docs/orders/1'' = Some (connectionState o2)"
    using a[rule_format, of 2] by (auto simp: exampleCalls_def)
  have "createdFor ''docs/orders/1'' (states c') = 1"
    using count[rule_format, of "''docs/orders/1''"]
    by (simp add: connectedExample_def NewDatabaseChanges_def addConnectionStatusChanged_def
          targets_def exampleCalls_def createdFor_def)
  then show ?thesis
    using ready_connectedExample r len o0 o2 by auto
qed

theorem filter_correctness_witness:
  "ID exampleChange = ''orders/1'' \<and> isASCII ''orders/1'' \<and> isASCII ''ORDERS/'' \<and>
   length ''ORDERS/'' \<le> length (ID exampleChange) \<and>
   length ''orders/12345'' > length (ID exampleChange) \<and>
   (\<exists>c1 obs1 c2 obs2 c3 pre1 c4 pre2 c5 pre3 c6 pre4.
      forDocument noFold connectedExample ''orders/1'' quietEnv = Return (c1, Inr obs1) \<and>
      forDocument noFold connectedExample ''orders/2'' quietEnv = Return (c2, Inr obs2) \<and>
      forDocumentsStartingWith noFold connectedExample ''orders/'' quietEnv = Return (c3, Inr pre1) \<and>
      forDocumentsStartingWith noFold connectedExample ''users/'' quietEnv = Return (c4, Inr pre2) \<and>
      forDocumentsStartingWith noFold connectedExample ''ORDERS/'' quietEnv = Return (c5, Inr pre3) \<and>
      forDocumentsStartingWith noFold connectedExample ''orders/12345'' quietEnv = Return (c6, Inr pre4) \<and>
      filterFn obs1 (DocumentChangeN exampleChange) = Return True \<and>
      filterFn obs2 (DocumentChangeN exampleChange) = Return False \<and>
      filterFn pre1 (DocumentChangeN exampleChange) = Return True \<and>
      filterFn pre2 (DocumentChangeN exampleChange) = Return False \<and>
      filterFn pre3 (DocumentChangeN exampleChange) = Return True \<and>
      filterFn pre4 (DocumentChangeN exampleChange) = Return False \<and>
      filterFn obs1 (DocumentChangeN exampleChange) =
        Return (map toLowerASCII (ID exampleChange) = map toLowerASCII ''orders/1''))"
proof -
  have doc: "\<exists>c1 obs. forDocument noFold connectedExample docId quietEnv = Return (c1, Inr obs)"
    for docId
    using subscribe_step[OF ready_connectedExample, of "ForDocument docId" noEscape noFold quietEnv]
    by auto
  have pre: "\<exists>c1 obs. forDocumentsStartingWith noFold connectedExample p quietEnv = Return (c1, Inr obs)"
    for p
    using subscribe_step[OF ready_connectedExample, of "ForDocumentsStartingWith p" noEscape noFold
        quietEnv]
    by auto
  obtain c1 obs1 where d1: "forDocument noFold connectedExample ''orders/1'' quietEnv = Return (c1, Inr obs1)"
    using doc by blast
  obtain c2 obs2 where d2: "forDocument noFold connectedExample ''orders/2'' quietEnv = Return (c2, Inr obs2)"
    using doc by blast
  obtain c3 pre1 where p1:
    "forDocumentsStartingWith noFold connectedExample ''orders/'' quietEnv = Return (c3, Inr pre1)"
    using pre by blast
  obtain c4 pre2 where p2:
    "forDocumentsStartingWith noFold connectedExample ''users/'' quietEnv = Return (c4, Inr pre2)"
    using pre by blast
  obtain c5 pre3 where p3:
    "forDocumentsStartingWith noFold connectedExample ''ORDERS/'' quietEnv = Return (c5, Inr pre3)"
    using pre by blast
  obtain c6 pre4 where p4:
    "forDocumentsStartingWith noFold connectedExample ''orders/12345'' quietEnv = Return (c6, Inr pre4)"
    using pre by blast
  have i: "ID exampleChange = ''orders/1''" by (simp add: exampleChange_def)
  have a: "isASCII ''orders/1''" "isASCII ''ORDERS/''" by (simp_all add: isASCII_def)
  have l: "length ''ORDERS/'' \<le> length (ID exampleChange)"
    "length ''orders/12345'' > length (ID exampleChange)"
    by (simp_all add: i)
  have low: "map toLowerASCII (take (length ''ORDERS/'') (ID exampleChange)) = map toLowerASCII ''ORDERS/''"
    by (simp add: i asciiFold_iff[symmetric] asciiFold_def)
  have 1: "filterFn obs1 (DocumentChangeN exampleChange) = Return True"
    "filterFn pre1 (DocumentChangeN exampleChange) = Return True"
    "filterFn obs1 (DocumentChangeN exampleChange) =
        Return (map toLowerASCII (ID exampleChange) = map toLowerASCII ''orders/1'')"
    using filter_correctness[OF d1 p1, of exampleChange] i a by simp_all
  have 2: "filterFn obs2 (DocumentChangeN exampleChange) = Return False"
    "filterFn pre2 (DocumentChangeN exampleChange) = Return False"
    using filter_correctness[OF d2 p2, of exampleChange] i by simp_all
  have 3: "filterFn pre3 (DocumentChangeN exampleChange) = Return True"
    using filter_correctness[OF d1 p3, of exampleChange] a l(1) low
    by (simp add: i)
  have 4: "filterFn pre4 (DocumentChangeN exampleChange) = Return False"
    using filter_correctness[OF d1 p4, of exampleChange] l(2) by blast
  show ?thesis
    using i a l d1 d2 p1 p2 p3 p4 1 2 3 4 by blast
qed

section \<open>Argument checks\<close>

text \<open>
  C5.  \<^verbatim>\<open>forDocumentsInCollection("")\<close> and \<^verbatim>\<open>forDocumentsOfType("")\<close> return the
  invalid-argument error and the object as it was: no connection state is made
  and nothing is written to the socket.  With a non-empty name neither returns
  an error, and on a ready object both return an observable.
\<close>

theorem empty_names_rejected:
  "forDocumentsInCollection U c [] env =
     Return (c, Inl (IllegalArgumentException ''CollectionName cannot be empty'')) \<and>
   forDocumentsOfType esc U c [] env =
     Return (c, Inl (IllegalArgumentException ''TypeName cannot be empty'')) \<and>
   (name \<noteq> [] \<longrightarrow>
      (\<forall>c' e. forDocumentsInCollection U c name env \<noteq> Return (c', Inl e)) \<and>
      (\<forall>c' e. forDocumentsOfType esc U c name env \<noteq> Return (c', Inl e))) \<and>
   (name \<noteq> [] \<and> ready c \<longrightarrow>
      (\<exists>c' obs. forDocumentsInCollection U c name env = Return (c', Inr obs)) \<and>
      (\<exists>c' obs. forDocumentsOfType esc U c name env = Return (c', Inr obs)))"
proof -
  have 1: "forDocumentsInCollection U c [] env =
     Return (c, Inl (IllegalArgumentException ''CollectionName cannot be empty''))"
    by (simp add: forDocumentsInCollection_def)
  have 2: "forDocumentsOfType esc U c [] env =
     Return (c, Inl (IllegalArgumentException ''TypeName cannot be empty''))"
    by (simp add: forDocumentsOfType_def)
  have 3: "forDocumentsInCollection U c name env \<noteq> Return (c', Inl e)" if "name \<noteq> []" for c' e
    using that by (auto simp: forDocumentsInCollection_def dest!: observable_Return)
  have 4: "forDocumentsOfType esc U c name env \<noteq> Return (c', Inl e)" if "name \<noteq> []" for c' e
    using that by (auto simp: forDocumentsOfType_def Let_def dest!: observable_Return)
  have 5: "\<exists>c' obs. forDocumentsInCollection U c name env = Return (c', Inr obs)"
    if "name \<noteq> []" "ready c"
    using subscribe_step[OF that(2), of "ForDocumentsInCollection name" esc U env] that(1) by auto
  have 6: "\<exists>c' obs. forDocumentsOfType esc U c name env = Return (c', Inr obs)"
    if "name \<noteq> []" "ready c"
    using subscribe_step[OF that(2), of "ForDocumentsOfType name" esc U env] that(1) by auto
  show ?thesis
    using 1 2 3 4 5 6 by blast
qed

theorem empty_names_rejected_witness:
  "''Orders'' \<noteq> [] \<and> ready connectedExample \<and>
   (\<forall>c' e. forDocumentsInCollection noFold connectedExample ''Orders'' quietEnv \<noteq> Return (c', Inl e)) \<and>
   (\<forall>c' e. forDocumentsOfType noEscape noFold connectedExample ''Orders'' quietEnv \<noteq> Return (c', Inl e)) \<and>
   (\<exists>c' obs. forDocumentsInCollection noFold connectedExample ''Orders'' quietEnv = Return (c', Inr obs)) \<and>
   (\<exists>c' obs. forDocumentsOfType noEscape noFold connectedExample ''Orders'' quietEnv = Return (c', Inr obs))"
proof -
  have n: "''Orders'' \<noteq> []" by simp
  show ?thesis
    using empty_names_rejected[of noFold connectedExample quietEnv noEscape "''Orders''"]
      n ready_connectedExample
    by blast
qed

section \<open>The tables after NewDatabaseChanges\<close>

text \<open>
  C9.  On the value of \<^verbatim>\<open>NewDatabaseChanges\<close> the first subscribe call for a key
  panics at \<^verbatim>\<open>c._counters[name] = counter\<close>, an assignment to an entry of a nil
  map; and \<^verbatim>\<open>send\<close>, once the socket is there, panics at
  \<^verbatim>\<open>c._confirmations[currentCommandId] = taskCompletionSource\<close> for the same
  reason (with no socket it panics one line earlier, at the write).
\<close>

theorem nil_tables_fault:
  "getOrAddConnectionState (NewDatabaseChanges databaseName onDisposeGiven) name w u v env =
     Panic NilMapAssignment \<and>
   forDocument U (NewDatabaseChanges databaseName onDisposeGiven) docId env = Panic NilMapAssignment \<and>
   send ((NewDatabaseChanges databaseName onDisposeGiven)\<lparr>client := Some sock\<rparr>) command val env =
     Panic NilMapAssignment \<and>
   send (NewDatabaseChanges databaseName onDisposeGiven) command val env = Panic NilPointerDereference"
  by (simp add: getOrAddConnectionState_def forDocument_def observable_def send_def
        NewDatabaseChanges_def addConnectionStatusChanged_def NewDatabaseConnectionState_def
        NewCompletableFuture_def Let_def)

section \<open>A command that is not confirmed\<close>

lemma connectedExample_fields [simp]:
  "client connectedExample = Some 0"
  "confirmations connectedExample = Some Map.empty"
  "counters connectedExample = Some Map.empty"
  "commandId connectedExample = 0"
  "nextFuture connectedExample = 2"
  "immediateConnection connectedExample = 0"
  "onDispose connectedExample = True"
  "trace connectedExample = []"
  "states connectedExample = []"
  "cts connectedExample = False"
  "task connectedExample = 1"
  "tcs connectedExample = 0"
  "connectionStatusChanged connectedExample = [Some OwnStatusHandler]"
  "connectionStatusEventHandlerIdx connectedExample = 0"
  "futures connectedExample = (\<lambda>p. Pending)"
  by (simp_all add: connectedExample_def NewDatabaseChanges_def addConnectionStatusChanged_def)

lemma confirmationsInv_connectedExample: "confirmationsInv connectedExample"
  by (simp add: confirmationsInv_def)

lemma go_int_1 [simp]: "go_int 1 = 1" "go_int (0 + 1) = 1"
  by (simp_all add: go_int_def)

text \<open>
  The claim as the spec has it fails: on the connected example object a
  \<^verbatim>\<open>send\<close> that sees no frame returns the timeout error, and the entry for its
  command id 1 is still in the confirmations table.
\<close>

theorem timeout_entry_removed_counterexample:
  "resultOf (send connectedExample ''watch-doc'' ''orders/1'' quietEnv) = Some (Some TimeoutException) \<and>
   mapIndex (confirmations (the (stateOf (send connectedExample ''watch-doc'' ''orders/1'' quietEnv)))) 1
     = Some 2"
  by (simp add: send_def NewCompletableFuture_def Let_def quietEnv_def resultOf_def stateOf_def)

text \<open>
  C3, amended.  Let \<^verbatim>\<open>send\<close> run on an object with an open socket and a
  well-formed confirmations table, let the write succeed, and let no frame
  handled while it waits confirm the command id N it has assigned.  Then
  \<^verbatim>\<open>send\<close> returns the timeout error; and when it has returned the entry for
  N is still in the confirmations table, with its future still pending.  (A
  frame handled before the future is registered cannot complete it, whatever it
  carries: nothing is assumed of those frames.)
\<close>

theorem timeout_keeps_entry:
  assumes "client c = Some sock" and "confirmations c = Some m" and "confirmationsInv c"
    and "writeResult env = None"
    and "\<forall>f \<in> set (during env). confirmed f \<noteq> Some (go_int (commandId c + 1))"
  shows "\<exists>c'. send c command val env = Return (c', Some TimeoutException) \<and>
           mapIndex (confirmations c') (go_int (commandId c + 1)) = Some (nextFuture c) \<and>
           futures c' (nextFuture c) = Pending"
proof -
  define N where "N = go_int (commandId c + 1)"
  define c3 where "c3 = c\<lparr>futures := (futures c)(nextFuture c := Pending),
      nextFuture := Suc (nextFuture c), commandId := N,
      trace := trace c @ [Written sock N command val None]\<rparr>"
  define c4 where "c4 = processBatch c3 (early env)"
  define c5 where "c5 = c4\<lparr>confirmations := Some (m(N \<mapsto> nextFuture c))\<rparr>"
  define c6 where "c6 = processBatch c5 (during env)"
  have old: "m k \<noteq> Some (nextFuture c)" for k
    using assms(2,3) by (auto simp: confirmationsInv_def)
  have "futures c4 (nextFuture c) = futures c3 (nextFuture c)"
    unfolding c4_def
    by (rule processBatch_untouched) (simp add: c3_def assms(2) old)
  then have p4: "futures c4 (nextFuture c) = Pending"
    by (simp add: c3_def)
  have conf4: "confirmations c4 = Some m"
    by (simp add: c4_def c3_def assms(2))
  have "futures c6 (nextFuture c) = futures c5 (nextFuture c)"
    unfolding c6_def
  proof (rule processBatch_untouched, intro ballI allI impI)
    fix f n assume "f \<in> set (during env)" "confirmed f = Some n"
    then have "n \<noteq> N" using assms(5) by (auto simp: N_def)
    then show "mapIndex (confirmations c5) n \<noteq> Some (nextFuture c)"
      by (simp add: c5_def old)
  qed
  then have p6: "futures c6 (nextFuture c) = Pending"
    using p4 by (simp add: c5_def)
  have "send c command val env = Return (c6, GetWithTimeout (futures c6 (nextFuture c)))"
    using assms(1,4) conf4
    by (simp add: send_def NewCompletableFuture_def Let_def c6_def c5_def c4_def c3_def N_def)
  moreover have "mapIndex (confirmations c6) N = Some (nextFuture c)"
    by (simp add: c6_def c5_def)
  ultimately show ?thesis
    using p6 by (simp add: N_def)
qed

theorem timeout_keeps_entry_witness:
  "client connectedExample = Some 0 \<and> confirmations connectedExample = Some Map.empty \<and>
   confirmationsInv connectedExample \<and>
   writeResult (quietEnv\<lparr>during := [confirmFrame 5]\<rparr>) = None \<and>
   confirmed (confirmFrame 5) = Some 5 \<and>
   (\<exists>c'. send connectedExample ''watch-doc'' ''orders/1'' (quietEnv\<lparr>during := [confirmFrame 5]\<rparr>) =
            Return (c', Some TimeoutException) \<and>
          mapIndex (confirmations c') 1 = Some 2 \<and> futures c' 2 = Pending)"
proof -
  have 1: "writeResult (quietEnv\<lparr>during := [confirmFrame 5]\<rparr>) = None"
    by (simp add: quietEnv_def)
  have 2: "confirmed (confirmFrame 5) = Some 5"
    by (simp add: confirmed_def confirmFrame_def jsonGetAsString_def jsonGetAsInt_def)
  have 3: "\<forall>f \<in> set (during (quietEnv\<lparr>during := [confirmFrame 5]\<rparr>)).
             confirmed f \<noteq> Some (go_int (commandId connectedExample + 1))"
    using 2 by simp
  show ?thesis
    using timeout_keeps_entry[OF connectedExample_fields(1) connectedExample_fields(2)
        confirmationsInv_connectedExample 1 3, of "''watch-doc''" "''orders/1''"] 1 2
      confirmationsInv_connectedExample
    by simp
qed

section \<open>Confirmations\<close>

lemma send_confirmationsInv:
  assumes "send c command val env = Return (c', err)" and "confirmationsInv c"
  shows "confirmationsInv c'"
proof -
  obtain sock m where m: "confirmations c = Some m"
    "confirmations c' = Some (m(go_int (commandId c + 1) \<mapsto> nextFuture c))"
    using send_Return(1)[OF assms(1)] by blast
  have n: "nextFuture c' = Suc (nextFuture c)"
    using send_Return(6)[OF assms(1)] .
  have old: "\<forall>k p. m k = Some p \<longrightarrow> p < nextFuture c"
    using assms(2) m(1) by (simp add: confirmationsInv_def)
  have inj: "\<forall>k k' p. m k = Some p \<and> m k' = Some p \<longrightarrow> k = k'"
    using assms(2) m(1) by (simp add: confirmationsInv_def)
  show ?thesis
    unfolding confirmationsInv_def m(2) n
    using old inj by (auto simp: less_Suc_eq split: if_splits)
qed

lemma processMessage_confirmationsInv:
  "confirmationsInv (processMessage c f) = confirmationsInv c"
  by (simp add: confirmationsInv_def)

lemma processBatch_confirmationsInv:
  "confirmationsInv (processBatch c fs) = confirmationsInv c"
  by (simp add: confirmationsInv_def)

lemma twoPending_eval:
  "\<exists>c1 e1 e2. send connectedExample ''watch-doc'' ''orders/1'' quietEnv = Return (c1, e1) \<and>
     send c1 ''watch-doc'' ''orders/2'' quietEnv = Return (twoPending, e2)"
  by (simp add: twoPending_def send_def NewCompletableFuture_def Let_def quietEnv_def stateOf_def)

lemma twoPending_fields:
  "confirmationsInv twoPending"
  "mapIndex (confirmations twoPending) 1 = Some 2"
  "mapIndex (confirmations twoPending) 2 = Some 3"
  "mapIndex (confirmations twoPending) 7 = None"
  "futures twoPending 2 = Pending"
  "futures twoPending 3 = Pending"
proof -
  obtain c1 e1 e2 where s: "send connectedExample ''watch-doc'' ''orders/1'' quietEnv = Return (c1, e1)"
    "send c1 ''watch-doc'' ''orders/2'' quietEnv = Return (twoPending, e2)"
    using twoPending_eval by blast
  show "confirmationsInv twoPending"
    using send_confirmationsInv[OF s(2) send_confirmationsInv[OF s(1) confirmationsInv_connectedExample]] .
  show "mapIndex (confirmations twoPending) 1 = Some 2"
    "mapIndex (confirmations twoPending) 2 = Some 3"
    "mapIndex (confirmations twoPending) 7 = None"
    "futures twoPending 2 = Pending"
    "futures twoPending 3 = Pending"
    by (simp_all add: twoPending_def send_def NewCompletableFuture_def Let_def quietEnv_def stateOf_def
          go_int_def)
qed

text \<open>
  C2.  Let \<open>f\<close> be a Confirm frame carrying the command id N, handled on an
  object whose confirmations table is well formed.  The table is left as it is.
  If a future is registered for N, handling the frame completes that future
  (a pending one becomes completed) and changes nothing else of the object: every
  other future, in particular the future registered for any other command id,
  is as before.  If no future is registered for N, the object is unchanged.
\<close>

theorem confirm_completes_only_its_future:
  assumes "confirmed f = Some N" and "confirmationsInv c"
  shows "confirmations (processMessage c f) = confirmations c \<and>
         (\<forall>p. mapIndex (confirmations c) N = Some p \<longrightarrow>
            processMessage c f = c\<lparr>futures := (futures c)(p := Complete (futures c p))\<rparr> \<and>
            (futures c p = Pending \<longrightarrow> futures (processMessage c f) p = Completed)) \<and>
         (\<forall>q. mapIndex (confirmations c) N \<noteq> Some q \<longrightarrow>
            futures (processMessage c f) q = futures c q) \<and>
         (\<forall>M q. M \<noteq> N \<and> mapIndex (confirmations c) M = Some q \<longrightarrow>
            futures (processMessage c f) q = futures c q) \<and>
         (mapIndex (confirmations c) N = None \<longrightarrow> processMessage c f = c)"
proof -
  have ty: "fst (jsonGetAsString f ''Type'') = ''Confirm''"
    and ok: "jsonGetAsInt f ''CommandId'' = (N, True)"
    using assms(1) by (auto simp: confirmed_def split: if_splits prod.splits)
  have pm: "processMessage c f =
      (case mapIndex (confirmations c) N of
         None \<Rightarrow> c
       | Some future \<Rightarrow> c\<lparr>futures := (futures c)(future := Complete (futures c future))\<rparr>)"
    by (simp add: processMessage_def Let_def ty ok)
  have a: "\<forall>p. mapIndex (confirmations c) N = Some p \<longrightarrow>
            processMessage c f = c\<lparr>futures := (futures c)(p := Complete (futures c p))\<rparr> \<and>
            (futures c p = Pending \<longrightarrow> futures (processMessage c f) p = Completed)"
    by (simp add: pm)
  have b: "\<forall>q. mapIndex (confirmations c) N \<noteq> Some q \<longrightarrow>
            futures (processMessage c f) q = futures c q"
    by (auto simp: pm split: option.splits)
  have c: "\<forall>M q. M \<noteq> N \<and> mapIndex (confirmations c) M = Some q \<longrightarrow>
            futures (processMessage c f) q = futures c q"
  proof (intro allI impI)
    fix M q assume h: "M \<noteq> N \<and> mapIndex (confirmations c) M = Some q"
    then have "mapIndex (confirmations c) N \<noteq> Some q"
      using assms(2) unfolding confirmationsInv_def by blast
    then show "futures (processMessage c f) q = futures c q"
      using b by blast
  qed
  have d: "mapIndex (confirmations c) N = None \<longrightarrow> processMessage c f = c"
    by (simp add: pm)
  show ?thesis
    using a b c d by simp
qed

theorem confirm_completes_only_its_future_witness:
  "confirmed (confirmFrame 1) = Some 1 \<and> confirmed (confirmFrame 7) = Some 7 \<and>
   confirmationsInv twoPending \<and>
   mapIndex (confirmations twoPending) 1 = Some 2 \<and> mapIndex (confirmations twoPending) 2 = Some 3 \<and>
   mapIndex (confirmations twoPending) 7 = None \<and>
   futures twoPending 2 = Pending \<and> futures twoPending 3 = Pending \<and>
   futures (processMessage twoPending (confirmFrame 1)) 2 = Completed \<and>
   futures (processMessage twoPending (confirmFrame 1)) 3 = Pending \<and>
   processMessage twoPending (confirmFrame 7) = twoPending"
proof -
  have 1: "confirmed (confirmFrame n) = Some n" for n
    by (simp add: confirmed_def confirmFrame_def jsonGetAsString_def jsonGetAsInt_def)
  note t = twoPending_fields
  have a: "futures (processMessage twoPending (confirmFrame 1)) 2 = Completed"
    using confirm_completes_only_its_future[OF 1 t(1), of 1] t(2) t(5) by blast
  have b: "futures (processMessage twoPending (confirmFrame 1)) 3 = Pending"
  proof -
    have ne: "(2::int) \<noteq> 1" by simp
    have "futures (processMessage twoPending (confirmFrame 1)) 3 = futures twoPending 3"
      using confirm_completes_only_its_future[OF 1 t(1), of 1] t(3) ne by blast
    then show ?thesis using t(6) by simp
  qed
  have c: "processMessage twoPending (confirmFrame 7) = twoPending"
    using confirm_completes_only_its_future[OF 1 t(1), of 7] t(4) by blast
  show ?thesis
    using 1 t a b c by simp
qed

section \<open>Close\<close>

lemma socketCloses_simps [simp]:
  "socketCloses [] = []"
  "socketCloses (xs @ ys) = socketCloses xs @ socketCloses ys"
  "socketCloses (SocketClosed sock # evs) = SocketClosed sock # socketCloses evs"
  "socketCloses (Written sock i cmd p r # evs) = socketCloses evs"
  "socketCloses (ErrorReported e # evs) = socketCloses evs"
  "socketCloses (Disposed # evs) = socketCloses evs"
  "socketCloses (StatusChanged h # evs) = socketCloses evs"
  by (simp_all add: socketCloses_def)

lemma disposals_simps [simp]:
  "disposals [] = 0"
  "disposals (xs @ ys) = disposals xs + disposals ys"
  "disposals (Disposed # evs) = Suc (disposals evs)"
  "disposals (SocketClosed sock # evs) = disposals evs"
  "disposals (Written sock i cmd p r # evs) = disposals evs"
  "disposals (ErrorReported e # evs) = disposals evs"
  "disposals (StatusChanged h # evs) = disposals evs"
  by (simp_all add: disposals_def)

lemma handlersOnly_refl: "handlersOnly c c"
  by (simp add: handlersOnly_def)

lemma handlersOnly_trans: "handlersOnly a b \<Longrightarrow> handlersOnly b c \<Longrightarrow> handlersOnly a c"
  by (auto simp: handlersOnly_def)

lemma handlersOnly_onConnectionStatusChanged: "handlersOnly c (onConnectionStatusChanged c)"
  by (auto simp: handlersOnly_def onConnectionStatusChanged_def isConnected_def
        NewCompletableFuture_def)

lemma handlersOnly_invokeHandlers: "handlersOnly c (invokeHandlers fns c)"
proof (induction fns c rule: invokeHandlers.induct)
  case (1 c)
  then show ?case by (simp add: handlersOnly_refl)
next
  case (2 fns c)
  then show ?case by simp
next
  case (3 fns c)
  then show ?case
    using handlersOnly_trans[OF handlersOnly_onConnectionStatusChanged] by simp
next
  case (4 h fns c)
  have "handlersOnly c (c\<lparr>trace := trace c @ [StatusChanged h]\<rparr>)"
    by (simp add: handlersOnly_def)
  then show ?case
    using handlersOnly_trans 4 by simp
qed

lemma IsDone_fixed:
  "IsDone x \<Longrightarrow> Complete x = x"
  "IsDone x \<Longrightarrow> CompleteExceptionally e x = x"
  "IsDone x \<Longrightarrow> Cancel x = x"
  "IsDone (Cancel x)"
  by (cases x; simp)+

lemma taskGet_returns:
  assumes "IsDone (futures c (task c)) \<or> worker \<noteq> None"
  shows "\<exists>c'. taskGet c worker = Return c'"
  using assms by (auto simp: taskGet_def split: option.splits)

lemma taskGet_Return:
  assumes "taskGet c worker = Return c'"
  shows "\<exists>F. c' = c\<lparr>futures := F\<rparr> \<and> (\<forall>p. p \<noteq> task c \<or> IsDone (futures c p) \<longrightarrow> F p = futures c p)"
proof (cases "IsDone (futures c (task c))")
  case True
  then have "c' = c\<lparr>futures := futures c\<rparr>" using assms by (simp add: taskGet_def)
  then show ?thesis by blast
next
  case False
  show ?thesis
  proof (cases worker)
    case None
    then show ?thesis using assms False by (simp add: taskGet_def)
  next
    case (Some w)
    show ?thesis
    proof (cases w)
      case None
      then have "c' = c\<lparr>futures := (futures c)(task c := Complete (futures c (task c)))\<rparr>"
        using assms False Some by (simp add: taskGet_def)
      moreover have "\<forall>p. p \<noteq> task c \<or> IsDone (futures c p) \<longrightarrow>
          ((futures c)(task c := Complete (futures c (task c)))) p = futures c p"
        using False by auto
      ultimately show ?thesis by blast
    next
      case (Some err)
      then have "c' = c\<lparr>futures := (futures c)(task c := CompleteExceptionally err (futures c (task c)))\<rparr>"
        using assms False \<open>worker = Some w\<close> by (simp add: taskGet_def)
      moreover have "\<forall>p. p \<noteq> task c \<or> IsDone (futures c p) \<longrightarrow>
          ((futures c)(task c := CompleteExceptionally err (futures c (task c)))) p = futures c p"
        using False by auto
      ultimately show ?thesis by blast
    qed
  qed
qed

lemma cancelConfirmations_fields:
  "commandId (cancelConfirmations c) = commandId c"
  "onDispose (cancelConfirmations c) = onDispose c"
  "client (cancelConfirmations c) = client c"
  "task (cancelConfirmations c) = task c"
  "confirmations (cancelConfirmations c) = confirmations c"
  "connectionStatusEventHandlerIdx (cancelConfirmations c) = connectionStatusEventHandlerIdx c"
  "connectionStatusChanged (cancelConfirmations c) = connectionStatusChanged c"
  "nextFuture (cancelConfirmations c) = nextFuture c"
  "trace (cancelConfirmations c) = trace c"
  by (simp_all add: cancelConfirmations_def split: option.splits)

lemma cancelConfirmations_futures:
  "futures (cancelConfirmations c) p =
     (if \<exists>k. mapIndex (confirmations c) k = Some p then Cancel (futures c p) else futures c p)"
  by (auto simp: cancelConfirmations_def ran_def split: option.splits)

lemma removeConnectionStatusChanged_valid:
  assumes "handlerIdxValid c"
  shows "\<exists>l. removeConnectionStatusChanged c (connectionStatusEventHandlerIdx c) =
           Return (c\<lparr>connectionStatusChanged := l\<rparr>)"
proof (cases "connectionStatusEventHandlerIdx c = - 1")
  case True
  then have "removeConnectionStatusChanged c (connectionStatusEventHandlerIdx c) =
      Return (c\<lparr>connectionStatusChanged := connectionStatusChanged c\<rparr>)"
    by (simp add: removeConnectionStatusChanged_def)
  then show ?thesis by blast
next
  case False
  then have "removeConnectionStatusChanged c (connectionStatusEventHandlerIdx c) =
      Return (c\<lparr>connectionStatusChanged :=
                 (connectionStatusChanged c)[nat (connectionStatusEventHandlerIdx c) := None]\<rparr>)"
    using assms by (simp add: removeConnectionStatusChanged_def handlerIdxValid_def)
  then show ?thesis by blast
qed

lemma Close_returns:
  assumes "client c = Some sock"
    and "handlerIdxValid c"
    and "IsDone (futures c (task c)) \<or> worker \<noteq> None"
    and "confirmationsInv c"
  shows "\<exists>c'. Close c worker = Return c' \<and>
           confirmations c' = confirmations c \<and>
           counters c' = None \<and> client c' = None \<and> cts c' \<and>
           commandId c' = commandId c \<and>
           written (trace c') = written (trace c) \<and>
           socketCloses (trace c') = socketCloses (trace c) @ [SocketClosed sock] \<and>
           disposals (trace c') = disposals (trace c) + (if onDispose c then 1 else 0) \<and>
           (\<forall>k p. mapIndex (confirmations c) k = Some p \<longrightarrow> futures c' p = Cancel (futures c p))"
proof -
  define c1 where "c1 = cancelConfirmations c"
  define c5 where "c5 = c1\<lparr>trace := trace c1 @ [SocketClosed sock], client := None, cts := True,
      counters := None\<rparr>"
  note c1f = cancelConfirmations_fields[of c, folded c1_def]
  have canc: "futures c1 p = Cancel (futures c p)" if "mapIndex (confirmations c) k = Some p" for k p
    using that unfolding c1_def cancelConfirmations_futures by auto
  have "IsDone (futures c1 (task c)) \<or> worker \<noteq> None"
    using assms(3) unfolding c1_def cancelConfirmations_futures
    by (auto simp: IsDone_fixed)
  then have "IsDone (futures c5 (task c5)) \<or> worker \<noteq> None"
    by (simp add: c5_def c1f)
  then obtain c6 where c6: "taskGet c5 worker = Return c6"
    using taskGet_returns by blast
  obtain F where F: "c6 = c5\<lparr>futures := F\<rparr>"
    "\<forall>p. p \<noteq> task c5 \<or> IsDone (futures c5 p) \<longrightarrow> F p = futures c5 p"
    using taskGet_Return[OF c6] by blast
  have fut6: "futures c6 p = Cancel (futures c p)" if "mapIndex (confirmations c) k = Some p" for k p
  proof -
    have a: "futures c5 p = Cancel (futures c p)" using canc[OF that] by (simp add: c5_def)
    then have "IsDone (futures c5 p)" by (simp add: IsDone_fixed)
    then have "F p = futures c5 p" using F(2) by blast
    then show ?thesis using a by (simp add: F(1))
  qed
  have c6g: "commandId c6 = commandId c" "onDispose c6 = onDispose c" "client c6 = None"
    "confirmations c6 = confirmations c" "counters c6 = None" "cts c6"
    "connectionStatusEventHandlerIdx c6 = connectionStatusEventHandlerIdx c"
    "connectionStatusChanged c6 = connectionStatusChanged c" "nextFuture c6 = nextFuture c"
    "trace c6 = trace c @ [SocketClosed sock]"
    by (simp_all add: F(1) c5_def c1f)
  define c7 where "c7 = invokeConnectionStatusChanged c6"
  have h: "handlersOnly c6 c7"
    by (simp add: c7_def invokeConnectionStatusChanged_def handlersOnly_invokeHandlers)
  have "handlerIdxValid c7"
    using assms(2) h c6g(7,8) by (simp add: handlerIdxValid_def handlersOnly_def)
  then obtain l where c8: "removeConnectionStatusChanged c7 (connectionStatusEventHandlerIdx c7) =
      Return (c7\<lparr>connectionStatusChanged := l\<rparr>)"
    using removeConnectionStatusChanged_valid by blast
  define c8 where "c8 = c7\<lparr>connectionStatusChanged := l\<rparr>"
  have "Close c worker =
      (case taskGet c5 worker of
         Panic f \<Rightarrow> Panic f
       | Blocked \<Rightarrow> Blocked
       | Return c6 \<Rightarrow>
           (case removeConnectionStatusChanged (invokeConnectionStatusChanged c6)
                   (connectionStatusEventHandlerIdx (invokeConnectionStatusChanged c6)) of
              Panic f \<Rightarrow> Panic f
            | Blocked \<Rightarrow> Blocked
            | Return c8 \<Rightarrow>
                Return (if onDispose c8 then c8\<lparr>trace := trace c8 @ [Disposed]\<rparr> else c8)))"
    unfolding Close_def Let_def c5_def c1_def
    by (simp only: cancelConfirmations_fields assms(1) option.case)
  then have cl: "Close c worker =
      Return (if onDispose c8 then c8\<lparr>trace := trace c8 @ [Disposed]\<rparr> else c8)"
    using c6 c8 by (simp add: c7_def c8_def)
  have fut8: "futures c8 p = Cancel (futures c p)" if "mapIndex (confirmations c) k = Some p" for k p
  proof -
    have "p < nextFuture c6"
      using assms(4) that c6g(9) by (auto simp: confirmationsInv_def)
    then have "futures c7 p = futures c6 p"
      using h c6g(3) by (simp add: handlersOnly_def)
    then show ?thesis using fut6[OF that] by (simp add: c8_def)
  qed
  have c8g: "commandId c8 = commandId c" "onDispose c8 = onDispose c" "client c8 = None"
    "confirmations c8 = confirmations c" "counters c8 = None" "cts c8"
    "written (trace c8) = written (trace c)"
    "socketCloses (trace c8) = socketCloses (trace c) @ [SocketClosed sock]"
    "disposals (trace c8) = disposals (trace c)"
    using h c6g by (simp_all add: handlersOnly_def c8_def)
  show ?thesis
    unfolding cl using c8g fut8 by auto
qed

lemma twoPending_more:
  "client twoPending = Some 0"
  "handlerIdxValid twoPending"
  "onDispose twoPending"
  "trace twoPending =
     [Written 0 1 ''watch-doc'' ''orders/1'' None, Written 0 2 ''watch-doc'' ''orders/2'' None]"
  "commandId twoPending = 2"
  "counters twoPending = Some Map.empty"
  by (simp_all add: twoPending_def send_def NewCompletableFuture_def Let_def quietEnv_def stateOf_def
        go_int_def handlerIdxValid_def)

text \<open>
  C7.  Let Close run on an object whose socket is open, whose own status handler
  index is the one NewDatabaseChanges stored, whose confirmations table is well
  formed, and whose worker task is done or ends while Close waits for it.  Then
  Close returns; every future in the confirmations table that was pending is
  cancelled; the socket is closed exactly once; the dispose hook is called
  exactly once if one was given and not at all otherwise; and afterwards the
  counters table (nil) has no entry and \<^verbatim>\<open>_client\<close> is nil.
\<close>

theorem Close_semantics:
  assumes "client c = Some sock"
    and "handlerIdxValid c"
    and "IsDone (futures c (task c)) \<or> worker \<noteq> None"
    and "confirmationsInv c"
  shows "\<exists>c'. Close c worker = Return c' \<and>
           (\<forall>k p. mapIndex (confirmations c) k = Some p \<and> futures c p = Pending
              \<longrightarrow> futures c' p = Cancelled) \<and>
           socketCloses (trace c') = socketCloses (trace c) @ [SocketClosed sock] \<and>
           disposals (trace c') = disposals (trace c) + (if onDispose c then 1 else 0) \<and>
           counters c' = None \<and> (\<forall>k. mapIndex (counters c') k = None) \<and>
           client c' = None"
proof -
  obtain c' where c': "Close c worker = Return c'"
    "counters c' = None" "client c' = None"
    "socketCloses (trace c') = socketCloses (trace c) @ [SocketClosed sock]"
    "disposals (trace c') = disposals (trace c) + (if onDispose c then 1 else 0)"
    "\<forall>k p. mapIndex (confirmations c) k = Some p \<longrightarrow> futures c' p = Cancel (futures c p)"
    using Close_returns[OF assms] by blast
  have "\<forall>k p. mapIndex (confirmations c) k = Some p \<and> futures c p = Pending
          \<longrightarrow> futures c' p = Cancelled"
    using c'(6) by auto
  then show ?thesis
    using c'(1-5) by simp
qed

theorem Close_semantics_witness:
  "client twoPending = Some 0 \<and> handlerIdxValid twoPending \<and> confirmationsInv twoPending \<and>
   onDispose twoPending \<and>
   mapIndex (confirmations twoPending) 1 = Some 2 \<and> futures twoPending 2 = Pending \<and>
   mapIndex (confirmations twoPending) 2 = Some 3 \<and> futures twoPending 3 = Pending \<and>
   (\<exists>c'. Close twoPending (Some None) = Return c' \<and>
      futures c' 2 = Cancelled \<and> futures c' 3 = Cancelled \<and>
      socketCloses (trace c') = [SocketClosed 0] \<and> disposals (trace c') = 1 \<and>
      counters c' = None \<and> client c' = None)"
proof -
  note t = twoPending_fields twoPending_more
  have w: "IsDone (futures twoPending (task twoPending)) \<or> Some (None :: error option) \<noteq> None"
    by simp
  obtain c' where c': "Close twoPending (Some None) = Return c'"
    "\<forall>k p. mapIndex (confirmations twoPending) k = Some p \<and> futures twoPending p = Pending
       \<longrightarrow> futures c' p = Cancelled"
    "socketCloses (trace c') = socketCloses (trace twoPending) @ [SocketClosed 0]"
    "disposals (trace c') = disposals (trace twoPending) + (if onDispose twoPending then 1 else 0)"
    "counters c' = None" "client c' = None"
    using Close_semantics[OF t(7) t(8) w t(1)] by blast
  have a: "futures c' 2 = Cancelled" using c'(2) t(2) t(5) by blast
  have b: "futures c' 3 = Cancelled" using c'(2) t(3) t(6) by blast
  have s: "socketCloses (trace c') = [SocketClosed 0]" using c'(3) by (simp add: t(10))
  have d: "disposals (trace c') = 1" using c'(4) by (simp add: t(9) t(10))
  show ?thesis
    using t c' a b s d by simp
qed

text \<open>
  C10.  When the write fails, \<^verbatim>\<open>send\<close> returns the write error, and the future
  it made is registered under the command id it assigned.  Whenever \<^verbatim>\<open>send\<close>
  returns, every command id that was in the confirmations table is still in it,
  as is the new one.  Handling a frame, a Confirm frame included, leaves the
  table as it is: the future is completed, its entry stays.  Close is where the
  futures still in the table are ended: it cancels each of them (and it, too,
  leaves the entries in the table).
\<close>

theorem confirmations_never_deleted:
  "(client c = Some sock \<and> confirmations c = Some m \<and> writeResult env = Some e \<longrightarrow>
      (\<exists>c'. send c command val env = Return (c', Some e) \<and>
         mapIndex (confirmations c') (go_int (commandId c + 1)) = Some (nextFuture c))) \<and>
   (\<forall>c' err. send c command val env = Return (c', err) \<longrightarrow>
      mapIndex (confirmations c') (go_int (commandId c + 1)) = Some (nextFuture c) \<and>
      (\<forall>k. mapIndex (confirmations c) k \<noteq> None \<longrightarrow> mapIndex (confirmations c') k \<noteq> None)) \<and>
   confirmations (processMessage c f) = confirmations c \<and>
   confirmations (processBatch c fs) = confirmations c \<and>
   (client c = Some sock \<and> handlerIdxValid c \<and> confirmationsInv c \<and>
    (IsDone (futures c (task c)) \<or> worker \<noteq> None) \<longrightarrow>
      (\<exists>c'. Close c worker = Return c' \<and> confirmations c' = confirmations c \<and>
         (\<forall>k p. mapIndex (confirmations c) k = Some p \<longrightarrow> futures c' p = Cancel (futures c p))))"
proof -
  have 1: "\<exists>c'. send c command val env = Return (c', Some e) \<and>
         mapIndex (confirmations c') (go_int (commandId c + 1)) = Some (nextFuture c)"
    if h: "client c = Some sock \<and> confirmations c = Some m \<and> writeResult env = Some e"
  proof -
    obtain c' where s: "send c command val env = Return (c', Some e)"
      using send_returns[of c sock m command val env] h by auto
    have "mapIndex (confirmations c') (go_int (commandId c + 1)) = Some (nextFuture c)"
      using send_Return(1)[OF s] by auto
    then show ?thesis using s by blast
  qed
  have 2: "mapIndex (confirmations c') (go_int (commandId c + 1)) = Some (nextFuture c) \<and>
      (\<forall>k. mapIndex (confirmations c) k \<noteq> None \<longrightarrow> mapIndex (confirmations c') k \<noteq> None)"
    if s: "send c command val env = Return (c', err)" for c' err
    using send_Return(1)[OF s] by auto
  have 3: "\<exists>c'. Close c worker = Return c' \<and> confirmations c' = confirmations c \<and>
         (\<forall>k p. mapIndex (confirmations c) k = Some p \<longrightarrow> futures c' p = Cancel (futures c p))"
    if h: "client c = Some sock \<and> handlerIdxValid c \<and> confirmationsInv c \<and>
        (IsDone (futures c (task c)) \<or> worker \<noteq> None)"
    using Close_returns[of c sock worker] h by blast
  show ?thesis
    using 1 2 3 by simp
qed

theorem confirmations_never_deleted_witness:
  "client connectedExample = Some 0 \<and> confirmations connectedExample = Some Map.empty \<and>
   writeResult (quietEnv\<lparr>writeResult := Some (WriteError ''broken pipe'')\<rparr>) =
     Some (WriteError ''broken pipe'') \<and>
   (\<exists>c'. send connectedExample ''watch-doc'' ''orders/1''
            (quietEnv\<lparr>writeResult := Some (WriteError ''broken pipe'')\<rparr>) =
          Return (c', Some (WriteError ''broken pipe'')) \<and>
          mapIndex (confirmations c') 1 = Some 2) \<and>
   confirmations (processMessage twoPending (confirmFrame 1)) = confirmations twoPending \<and>
   mapIndex (confirmations (processMessage twoPending (confirmFrame 1))) 1 = Some 2 \<and>
   client twoPending = Some 0 \<and> handlerIdxValid twoPending \<and> confirmationsInv twoPending \<and>
   (\<exists>c'. Close twoPending (Some None) = Return c' \<and>
      mapIndex (confirmations c') 1 = Some 2 \<and> mapIndex (confirmations c') 2 = Some 3 \<and>
      futures c' 2 = Cancelled \<and> futures c' 3 = Cancelled)"
proof -
  have w: "writeResult (quietEnv\<lparr>writeResult := Some (WriteError ''broken pipe'')\<rparr>) =
     Some (WriteError ''broken pipe'')"
    by simp
  have "\<exists>c'. send connectedExample ''watch-doc'' ''orders/1''
            (quietEnv\<lparr>writeResult := Some (WriteError ''broken pipe'')\<rparr>) =
          Return (c', Some (WriteError ''broken pipe'')) \<and>
          mapIndex (confirmations c') (go_int (commandId connectedExample + 1)) =
            Some (nextFuture connectedExample)"
    using confirmations_never_deleted[of connectedExample 0 Map.empty
        "quietEnv\<lparr>writeResult := Some (WriteError ''broken pipe'')\<rparr>" "WriteError ''broken pipe''"
        "''watch-doc''" "''orders/1''"] w
    by simp
  then have a: "\<exists>c'. send connectedExample ''watch-doc'' ''orders/1''
            (quietEnv\<lparr>writeResult := Some (WriteError ''broken pipe'')\<rparr>) =
          Return (c', Some (WriteError ''broken pipe'')) \<and>
          mapIndex (confirmations c') 1 = Some 2"
    by simp
  have b: "confirmations (processMessage twoPending (confirmFrame 1)) = confirmations twoPending"
    using confirmations_never_deleted[of twoPending _ _ _ _ _ _ "confirmFrame 1"] by blast
  note t = twoPending_fields twoPending_more
  have "IsDone (futures twoPending (task twoPending)) \<or> Some (None :: error option) \<noteq> None"
    by simp
  then obtain c' where c: "Close twoPending (Some None) = Return c'"
    "confirmations c' = confirmations twoPending"
    "\<forall>k p. mapIndex (confirmations twoPending) k = Some p \<longrightarrow> futures c' p = Cancel (futures twoPending p)"
    using confirmations_never_deleted[of twoPending 0 _ _ _ _ _ _ _ "Some None"] t(1) t(7) t(8)
    by blast
  have "futures c' 2 = Cancelled" "futures c' 3 = Cancelled"
    using c(3) t(2) t(3) t(5) t(6) by auto
  then have d: "\<exists>c'. Close twoPending (Some None) = Return c' \<and>
      mapIndex (confirmations c') 1 = Some 2 \<and> mapIndex (confirmations c') 2 = Some 3 \<and>
      futures c' 2 = Cancelled \<and> futures c' 3 = Cancelled"
    using c(1,2) t(2) t(3) by auto
  show ?thesis
    using w a b d t(1) t(2) t(7) t(8) by simp
qed

section \<open>Command ids\<close>

lemma go_int_succ:
  assumes "0 \<le> n" and "n < MaxInt"
  shows "go_int (n + 1) = n + 1"
proof -
  have "0 \<le> n + 1 + 2 ^ 63" "n + 1 + 2 ^ 63 < (2 ^ 64 :: int)"
    using assms by (simp_all add: MaxInt_def)
  then have "(n + 1 + 2 ^ 63) mod 2 ^ 64 = n + 1 + 2 ^ 63"
    by simp
  then show ?thesis by (simp add: go_int_def)
qed

lemma assigned_eq:
  "written (trace c') = written (trace c) \<Longrightarrow> assigned c' = assigned c"
  by (simp add: assigned_def)

text \<open>One \<^verbatim>\<open>send\<close>: the next id, larger than all before and new to the table.\<close>

lemma send_ids:
  assumes s: "send c command val env = Return (c', err)"
    and inv: "idsInv c" and lo: "0 \<le> commandId c" and hi: "commandId c < MaxInt"
  shows "assigned c' = assigned c @ [commandId c + 1]"
    and "commandId c' = commandId c + 1"
    and "idsInv c'"
    and "mapIndex (confirmations c) (commandId c + 1) = None"
    and "\<forall>k. mapIndex (confirmations c) k \<noteq> None \<longrightarrow> mapIndex (confirmations c') k \<noteq> None"
proof -
  have g: "go_int (commandId c + 1) = commandId c + 1"
    using go_int_succ[OF lo hi] .
  obtain sock m where m: "confirmations c = Some m"
    "confirmations c' = Some (m(commandId c + 1 \<mapsto> nextFuture c))"
    "written (trace c') = written (trace c) @ [Written sock (commandId c + 1) command val (writeResult env)]"
    using send_Return(1)[OF s] unfolding g by blast
  show a: "assigned c' = assigned c @ [commandId c + 1]"
    by (simp add: assigned_def m(3))
  show b: "commandId c' = commandId c + 1"
    using send_Return(2)[OF s] g by simp
  have srt: "sorted_wrt (<) (assigned c)" and le: "\<forall>i \<in> set (assigned c). i \<le> commandId c"
    and tab: "\<forall>k p. m k = Some p \<longrightarrow> k \<le> commandId c"
    using inv m(1) by (auto simp: idsInv_def)
  show "idsInv c'"
    unfolding idsInv_def a b m(2)
    using srt le tab by (auto simp: sorted_wrt_append)
  show "mapIndex (confirmations c) (commandId c + 1) = None"
  proof (cases "m (commandId c + 1)")
    case None
    then show ?thesis by (simp add: m(1))
  next
    case (Some p)
    then have "commandId c + 1 \<le> commandId c" using tab by blast
    then show ?thesis by simp
  qed
  show "\<forall>k. mapIndex (confirmations c) k \<noteq> None \<longrightarrow> mapIndex (confirmations c') k \<noteq> None"
    by (simp add: m(1,2))
qed

lemma getOrAdd_Return:
  assumes "getOrAddConnectionState c name w u v env = Return (c', p)"
  shows "c' = c \<or>
         (\<exists>c2. commandId c2 = commandId c \<and> confirmations c2 = confirmations c \<and>
                trace c2 = trace c \<and> client c2 = client c \<and>
                mapIndex (counters c) name = None \<and>
                (if immediateConnection c = 0 then (\<exists>err. send c2 w v env = Return (c', err))
                 else c' = c2))"
proof (cases "mapIndex (counters c) name")
  case (Some q)
  then show ?thesis using assms by (simp add: getOrAddConnectionState_def)
next
  case None
  show ?thesis
  proof (cases "counters c")
    case cn: None
    then show ?thesis
      using assms None
      by (simp add: getOrAddConnectionState_def NewDatabaseConnectionState_def)
  next
    case (Some m)
    define c2 where
      "c2 = c\<lparr>states := states c @ [\<lparr>onConnect = (w, v), onDisconnect = (name, u, v)\<rparr>],
              counters := Some (m(name \<mapsto> length (states c)))\<rparr>"
    have "if immediateConnection c = 0 then (\<exists>err. send c2 w v env = Return (c', err)) else c' = c2"
      using assms None Some
      by (auto simp: getOrAddConnectionState_def NewDatabaseConnectionState_def Let_def c2_def
            split: outcome.splits if_splits)
    moreover have "commandId c2 = commandId c \<and> confirmations c2 = confirmations c \<and>
                trace c2 = trace c \<and> client c2 = client c"
      by (simp add: c2_def)
    ultimately show ?thesis using None by blast
  qed
qed

lemma subscribe_Return:
  assumes "subscribe esc U c s env = Return (c', r)"
  shows "c' = c \<or>
         (\<exists>c2 w v. commandId c2 = commandId c \<and> confirmations c2 = confirmations c \<and>
                trace c2 = trace c \<and> client c2 = client c \<and>
                mapIndex (counters c) (watchTarget s) = None \<and>
                (if immediateConnection c = 0 then (\<exists>err. send c2 w v env = Return (c', err))
                 else c' = c2))"
proof (cases "rejected s")
  case True
  then show ?thesis using subscribe_rejected[OF True, of esc U c env] assms by auto
next
  case False
  obtain ty f w u v where sub: "\<forall>c env. subscribe esc U c s env =
      observable ty f (getOrAddConnectionState c (watchTarget s) w u v env)"
    using subscribe_getOrAdd[OF False, of esc U] by blast
  obtain p where "getOrAddConnectionState c (watchTarget s) w u v env = Return (c', p)"
    using assms sub observable_Return by metis
  from getOrAdd_Return[OF this] show ?thesis by blast
qed

lemma removeConnectionStatusChanged_Return:
  assumes "removeConnectionStatusChanged c i = Return c'"
  shows "\<exists>l. c' = c\<lparr>connectionStatusChanged := l\<rparr>"
proof (cases "i = - 1")
  case True
  then have "c' = c\<lparr>connectionStatusChanged := connectionStatusChanged c\<rparr>"
    using assms by (simp add: removeConnectionStatusChanged_def)
  then show ?thesis by blast
next
  case False
  then have "c' = c\<lparr>connectionStatusChanged := (connectionStatusChanged c)[nat i := None]\<rparr>"
    using assms by (simp add: removeConnectionStatusChanged_def split: if_splits)
  then show ?thesis by blast
qed

lemma Close_Return:
  assumes "Close c worker = Return c'"
  shows "commandId c' = commandId c" and "confirmations c' = confirmations c"
    and "written (trace c') = written (trace c)"
proof -
  define c1 where "c1 = cancelConfirmations c"
  note c1f = cancelConfirmations_fields[of c, folded c1_def]
  obtain sock where sock: "client c = Some sock"
    using assms by (cases "client c") (simp_all add: Close_def Let_def cancelConfirmations_fields)
  define c5 where "c5 = c1\<lparr>trace := trace c1 @ [SocketClosed sock], client := None, cts := True,
      counters := None\<rparr>"
  have cl: "Close c worker =
      (case taskGet c5 worker of
         Panic f \<Rightarrow> Panic f
       | Blocked \<Rightarrow> Blocked
       | Return c6 \<Rightarrow>
           (case removeConnectionStatusChanged (invokeConnectionStatusChanged c6)
                   (connectionStatusEventHandlerIdx (invokeConnectionStatusChanged c6)) of
              Panic f \<Rightarrow> Panic f
            | Blocked \<Rightarrow> Blocked
            | Return c8 \<Rightarrow>
                Return (if onDispose c8 then c8\<lparr>trace := trace c8 @ [Disposed]\<rparr> else c8)))"
    unfolding Close_def Let_def c5_def c1_def
    by (simp only: cancelConfirmations_fields sock option.case)
  obtain c6 where c6: "taskGet c5 worker = Return c6"
    using assms cl by (cases "taskGet c5 worker") simp_all
  define c7 where "c7 = invokeConnectionStatusChanged c6"
  obtain c8 where c8: "removeConnectionStatusChanged c7 (connectionStatusEventHandlerIdx c7) = Return c8"
    using assms cl c6
    by (cases "removeConnectionStatusChanged c7 (connectionStatusEventHandlerIdx c7)")
       (simp_all add: c7_def)
  have c': "c' = (if onDispose c8 then c8\<lparr>trace := trace c8 @ [Disposed]\<rparr> else c8)"
    using assms cl c6 c8 by (simp add: c7_def)
  obtain F where F: "c6 = c5\<lparr>futures := F\<rparr>"
    using taskGet_Return[OF c6] by blast
  have h: "handlersOnly c6 c7"
    by (simp add: c7_def invokeConnectionStatusChanged_def handlersOnly_invokeHandlers)
  obtain l where l: "c8 = c7\<lparr>connectionStatusChanged := l\<rparr>"
    using removeConnectionStatusChanged_Return[OF c8] by blast
  have "commandId c7 = commandId c" "confirmations c7 = confirmations c"
    "written (trace c7) = written (trace c)"
    using h by (simp_all add: handlersOnly_def F c5_def c1f)
  then show "commandId c' = commandId c" and "confirmations c' = confirmations c"
    and "written (trace c') = written (trace c)"
    by (simp_all add: c' l)
qed

lemma idsInv_same:
  assumes "idsInv c" and "commandId c' = commandId c" and "confirmations c' = confirmations c"
    and "written (trace c') = written (trace c)"
  shows "idsInv c'"
  using assms by (simp add: idsInv_def assigned_def)

text \<open>One operation gives out at most one id, the next one.\<close>

lemma exec_ids:
  assumes e: "exec esc U c a = Return c'"
    and inv: "idsInv c" and lo: "0 \<le> commandId c" and hi: "commandId c < MaxInt"
  shows "\<exists>ids. assigned c' = assigned c @ ids \<and> commandId c' = commandId c + int (length ids) \<and>
           length ids \<le> 1 \<and> idsInv c' \<and>
           (\<forall>i \<in> set ids. commandId c < i \<and> mapIndex (confirmations c) i = None) \<and>
           (\<forall>k. mapIndex (confirmations c) k \<noteq> None \<longrightarrow> mapIndex (confirmations c') k \<noteq> None)"
proof -
  have same: ?thesis
    if "commandId c' = commandId c" "confirmations c' = confirmations c"
      "written (trace c') = written (trace c)"
  proof -
    have "assigned c' = assigned c @ []" using that(3) by (simp add: assigned_def)
    moreover have "idsInv c'" using idsInv_same[OF inv that] .
    ultimately show ?thesis using that(1,2) by (intro exI[of _ "[]"]) simp
  qed
  have sent: ?thesis
    if s: "send c2 command val env = Return (c', err)"
      and c2: "commandId c2 = commandId c" "confirmations c2 = confirmations c" "trace c2 = trace c"
    for c2 command val env err
  proof -
    have inv2: "idsInv c2" using idsInv_same[OF inv c2(1,2)] c2(3) by simp
    have lo2: "0 \<le> commandId c2" and hi2: "commandId c2 < MaxInt" using lo hi c2(1) by simp_all
    note r = send_ids[OF s inv2 lo2 hi2]
    have "assigned c2 = assigned c" using c2(3) by (simp add: assigned_def)
    then have "assigned c' = assigned c @ [commandId c + 1]" using r(1) c2(1) by simp
    moreover have "commandId c' = commandId c + int (length [commandId c + 1])"
      using r(2) c2(1) by simp
    moreover have "\<forall>i \<in> set [commandId c + 1]. commandId c < i \<and> mapIndex (confirmations c) i = None"
      using r(4) c2(1,2) by simp
    moreover have "\<forall>k. mapIndex (confirmations c) k \<noteq> None \<longrightarrow> mapIndex (confirmations c') k \<noteq> None"
      using r(5) c2(2) by simp
    ultimately show ?thesis using r(3) by (intro exI[of _ "[commandId c + 1]"]) simp
  qed
  show ?thesis
  proof (cases a)
    case (Send command val env)
    then obtain err where "send c command val env = Return (c', err)"
      using e by (auto split: outcome.splits)
    then show ?thesis by (rule sent) simp_all
  next
    case (Subscribe s env)
    then obtain r where "subscribe esc U c s env = Return (c', r)"
      using e by (auto split: outcome.splits)
    from subscribe_Return[OF this] show ?thesis
    proof
      assume "c' = c"
      then show ?thesis by (intro same) simp_all
    next
      assume "\<exists>c2 w v. commandId c2 = commandId c \<and> confirmations c2 = confirmations c \<and>
                trace c2 = trace c \<and> client c2 = client c \<and>
                mapIndex (counters c) (watchTarget s) = None \<and>
                (if immediateConnection c = 0 then (\<exists>err. send c2 w v env = Return (c', err))
                 else c' = c2)"
      then obtain c2 w v where c2: "commandId c2 = commandId c" "confirmations c2 = confirmations c"
          "trace c2 = trace c"
        and alt: "if immediateConnection c = 0 then (\<exists>err. send c2 w v env = Return (c', err))
                 else c' = c2"
        by blast
      show ?thesis
      proof (cases "immediateConnection c = 0")
        case True
        then obtain err where "send c2 w v env = Return (c', err)" using alt by auto
        then show ?thesis using c2 by (rule sent)
      next
        case False
        then have "c' = c2" using alt by simp
        then show ?thesis using c2 by (intro same) simp_all
      qed
    qed
  next
    case (Receive msgArray)
    then have "c' = processBatch c msgArray" using e by simp
    then show ?thesis by (intro same) simp_all
  next
    case (CloseNow worker)
    then have "Close c worker = Return c'" using e by simp
    from Close_Return[OF this] show ?thesis by (intro same)
  qed
qed

text \<open>
  C6.  Take the operations on one object in the order of their critical sections,
  starting where the ids given out so far are in increasing order at or below
  the counter, the keys of the confirmations table lie at or below the counter,
  and the counter is far enough below the largest int that it cannot wrap.  Then
  the ids given out, old and new, are strictly increasing in the order in which
  they were given out, so none is given out twice; every new id is larger than
  every earlier one and was the key of no entry of the confirmations table; and
  the counter has advanced by the number of ids given out.
\<close>

theorem command_ids_strictly_increase:
  assumes "run esc U c acts = Return c'"
    and "idsInv c" and "0 \<le> commandId c" and "commandId c + int (length acts) \<le> MaxInt"
  shows "\<exists>ids. assigned c' = assigned c @ ids \<and>
           sorted_wrt (<) (assigned c') \<and> distinct (assigned c') \<and>
           (\<forall>i \<in> set ids. commandId c < i \<and> mapIndex (confirmations c) i = None) \<and>
           (\<forall>i \<in> set (assigned c). \<forall>j \<in> set ids. i < j) \<and>
           commandId c' = commandId c + int (length ids) \<and> idsInv c'"
proof -
  have main: "\<exists>ids. assigned c' = assigned c @ ids \<and> idsInv c' \<and> length ids \<le> length acts \<and>
           (\<forall>i \<in> set ids. commandId c < i \<and> mapIndex (confirmations c) i = None) \<and>
           commandId c' = commandId c + int (length ids)"
    using assms
  proof (induction acts arbitrary: c)
    case Nil
    then show ?case by (intro exI[of _ "[]"]) simp
  next
    case (Cons a acts)
    obtain c1 where c1: "exec esc U c a = Return c1" "run esc U c1 acts = Return c'"
      using Cons.prems(1) by (auto split: outcome.splits)
    have hi: "commandId c < MaxInt" using Cons.prems(4) by simp
    obtain ids1 where 1: "assigned c1 = assigned c @ ids1"
      "commandId c1 = commandId c + int (length ids1)" "length ids1 \<le> 1" "idsInv c1"
      "\<forall>i \<in> set ids1. commandId c < i \<and> mapIndex (confirmations c) i = None"
      "\<forall>k. mapIndex (confirmations c) k \<noteq> None \<longrightarrow> mapIndex (confirmations c1) k \<noteq> None"
      using exec_ids[OF c1(1) Cons.prems(2,3) hi] by blast
    have lo1: "0 \<le> commandId c1" using 1(2) Cons.prems(3) by simp
    have hi1: "commandId c1 + int (length acts) \<le> MaxInt"
      using 1(2,3) Cons.prems(4) by simp
    obtain ids2 where 2: "assigned c' = assigned c1 @ ids2" "idsInv c'" "length ids2 \<le> length acts"
      "\<forall>i \<in> set ids2. commandId c1 < i \<and> mapIndex (confirmations c1) i = None"
      "commandId c' = commandId c1 + int (length ids2)"
      using Cons.IH[OF c1(2) 1(4) lo1 hi1] by blast
    have a: "assigned c' = assigned c @ (ids1 @ ids2)" using 1(1) 2(1) by simp
    have b: "length (ids1 @ ids2) \<le> length (a # acts)" using 1(3) 2(3) by simp
    have c: "\<forall>i \<in> set (ids1 @ ids2). commandId c < i \<and> mapIndex (confirmations c) i = None"
    proof
      fix i assume "i \<in> set (ids1 @ ids2)"
      then consider "i \<in> set ids1" | "i \<in> set ids2" by auto
      then show "commandId c < i \<and> mapIndex (confirmations c) i = None"
      proof cases
        case 1
        then show ?thesis using \<open>\<forall>i \<in> set ids1. commandId c < i \<and> mapIndex (confirmations c) i = None\<close>
          by blast
      next
        case 2
        then have "commandId c1 < i" "mapIndex (confirmations c1) i = None"
          using \<open>\<forall>i \<in> set ids2. commandId c1 < i \<and> mapIndex (confirmations c1) i = None\<close> by auto
        moreover have "commandId c \<le> commandId c1" using 1(2) by simp
        ultimately show ?thesis using 1(6) by force
      qed
    qed
    have d: "commandId c' = commandId c + int (length (ids1 @ ids2))"
      using 1(2) 2(5) by simp
    show ?case using a b c d 2(2) by blast
  qed
  then obtain ids where ids: "assigned c' = assigned c @ ids" "idsInv c'"
    "\<forall>i \<in> set ids. commandId c < i \<and> mapIndex (confirmations c) i = None"
    "commandId c' = commandId c + int (length ids)"
    by blast
  have s: "sorted_wrt (<) (assigned c')" using ids(2) by (simp add: idsInv_def)
  then have dist: "distinct (assigned c')" using strict_sorted_iff by blast
  have "\<forall>i \<in> set (assigned c). \<forall>j \<in> set ids. i < j"
    using s unfolding ids(1) by (simp add: sorted_wrt_append)
  then show ?thesis using ids s dist by blast
qed

lemma idsInv_connectedExample: "idsInv connectedExample"
  by (simp add: idsInv_def assigned_def)

lemma exampleActions_run:
  "\<exists>c'. run noEscape noFold connectedExample exampleActions = Return c' \<and> assigned c' = [1, 2, 3]"
  by (simp add: exampleActions_def send_def NewCompletableFuture_def Let_def quietEnv_def
        confirmFrame_def processMessage_def jsonGetAsString_def jsonGetAsInt_def
        forIndex_def observable_def getOrAddConnectionState_def NewDatabaseConnectionState_def
        go_int_def assigned_def)

theorem command_ids_strictly_increase_witness:
  "idsInv connectedExample \<and> 0 \<le> commandId connectedExample \<and>
   commandId connectedExample + int (length exampleActions) \<le> MaxInt \<and>
   (\<exists>c'. run noEscape noFold connectedExample exampleActions = Return c' \<and>
      assigned c' = [1, 2, 3] \<and> sorted_wrt (<) (assigned c') \<and> distinct (assigned c') \<and>
      commandId c' = 3)"
proof -
  obtain c' where r: "run noEscape noFold connectedExample exampleActions = Return c'"
    "assigned c' = [1, 2, 3]"
    using exampleActions_run by blast
  have lo: "0 \<le> commandId connectedExample" by simp
  have hi: "commandId connectedExample + int (length exampleActions) \<le> MaxInt"
    by (simp add: exampleActions_def MaxInt_def)
  obtain ids where i: "assigned c' = assigned connectedExample @ ids"
    "sorted_wrt (<) (assigned c')" "distinct (assigned c')"
    "commandId c' = commandId connectedExample + int (length ids)"
    using command_ids_strictly_increase[OF r(1) idsInv_connectedExample lo hi] by blast
  have "ids = [1, 2, 3]" using i(1) r(2) by (simp add: assigned_def)
  then have "commandId c' = 3" using i(4) by simp
  then show ?thesis
    using idsInv_connectedExample lo hi r i(2,3) by blast
qed

section \<open>Documents of a type\<close>

text \<open>
  C8.  Let \<^verbatim>\<open>forDocumentsOfType(typeName)\<close> run with a non-empty name on a ready
  object.  It returns an observable whose filter, on a document change, decides
  \<^verbatim>\<open>strings.EqualFold(typeName, v.TypeName)\<close> with the name as given, not escaped
  (on ASCII strings: equality of the lower-cased names).  If the key "types/" +
  typeName was not in the counters table and the call sends at once, exactly one
  frame is written: the command "watch-type" whose Param is the escaped name.
  Otherwise nothing is written.
\<close>

theorem watch_type_param_escaped:
  assumes "typeName \<noteq> []" and "ready c"
  shows "\<exists>c' obs. forDocumentsOfType escapeDataString U c typeName env = Return (c', Inr obs) \<and>
           (\<forall>v. filterFn obs (DocumentChangeN v) = Return (EqualFold U typeName (TypeName v))) \<and>
           (\<forall>v. isASCII typeName \<and> isASCII (TypeName v) \<longrightarrow>
              filterFn obs (DocumentChangeN v) =
                Return (map toLowerASCII typeName = map toLowerASCII (TypeName v))) \<and>
           (if mapIndex (counters c) (''types/'' @ typeName) = None \<and> immediateConnection c = 0
            then \<exists>sock. client c = Some sock \<and>
                   written (trace c') =
                     written (trace c) @
                       [Written sock (go_int (commandId c + 1)) ''watch-type''
                          (escapeDataString typeName) (writeResult env)]
            else written (trace c') = written (trace c))"
proof -
  let ?name = "''types/'' @ typeName"
  let ?g = "getOrAddConnectionState c ?name ''watch-type'' ''unwatch-type''
              (escapeDataString typeName) env"
  have f: "forDocumentsOfType escapeDataString U c typeName env =
      observable ChangesType_DOCUMENT (forDocumentsOfType_filter U typeName) ?g"
    using assms(1) by (simp add: forDocumentsOfType_def Let_def)
  have g: "\<exists>c' p. ?g = Return (c', p) \<and>
      (if mapIndex (counters c) ?name = None \<and> immediateConnection c = 0
       then \<exists>sock. client c = Some sock \<and>
              written (trace c') =
                written (trace c) @
                  [Written sock (go_int (commandId c + 1)) ''watch-type''
                     (escapeDataString typeName) (writeResult env)]
       else written (trace c') = written (trace c))"
  proof (cases "mapIndex (counters c) ?name")
    case (Some q)
    then show ?thesis using getOrAdd_present[OF Some] by simp
  next
    case None
    obtain c' where c': "?g = Return (c', length (states c))"
      "if immediateConnection c = 0
       then (\<exists>sock. client c = Some sock \<and>
               written (trace c') =
                 written (trace c) @
                   [Written sock (go_int (commandId c + 1)) ''watch-type''
                      (escapeDataString typeName) (writeResult env)])
       else c' = c\<lparr>states := states c', counters := counters c'\<rparr>"
      using getOrAdd_absent[OF None assms(2), of "''watch-type''" "''unwatch-type''"
          "escapeDataString typeName" env]
      by blast
    have "written (trace c') = written (trace c)" if "immediateConnection c \<noteq> 0"
    proof -
      have eq: "c' = c\<lparr>states := states c', counters := counters c'\<rparr>" using c'(2) that by simp
      have "trace c' = trace c" by (subst eq) simp
      then show ?thesis by simp
    qed
    then show ?thesis using c' None by auto
  qed
  then obtain c' p where c': "?g = Return (c', p)"
    "if mapIndex (counters c) ?name = None \<and> immediateConnection c = 0
       then \<exists>sock. client c = Some sock \<and>
              written (trace c') =
                written (trace c) @
                  [Written sock (go_int (commandId c + 1)) ''watch-type''
                     (escapeDataString typeName) (writeResult env)]
       else written (trace c') = written (trace c)"
    by blast
  define obs where "obs = NewChangesObservable ChangesType_DOCUMENT p (forDocumentsOfType_filter U typeName)"
  have r: "forDocumentsOfType escapeDataString U c typeName env = Return (c', Inr obs)"
    unfolding f c'(1) by (simp add: observable_def obs_def)
  have fl: "filterFn obs (DocumentChangeN v) = Return (EqualFold U typeName (TypeName v))" for v
    by (simp add: obs_def NewChangesObservable_def)
  have fa: "isASCII typeName \<and> isASCII (TypeName v) \<longrightarrow>
              filterFn obs (DocumentChangeN v) =
                Return (map toLowerASCII typeName = map toLowerASCII (TypeName v))" for v
    by (simp add: fl EqualFold_ascii)
  show ?thesis
    using r fl fa c'(2) by blast
qed

theorem watch_type_param_escaped_witness:
  "''My Type'' \<noteq> [] \<and> ready connectedExample \<and>
   exampleEscape ''My Type'' = ''My%20Type'' \<and>
   (\<exists>c' obs. forDocumentsOfType exampleEscape noFold connectedExample ''My Type'' quietEnv =
        Return (c', Inr obs) \<and>
      filterFn obs (DocumentChangeN (exampleChange\<lparr>TypeName := ''my type''\<rparr>)) = Return True \<and>
      filterFn obs (DocumentChangeN (exampleChange\<lparr>TypeName := ''My%20Type''\<rparr>)) = Return False \<and>
      written (trace c') = [Written 0 1 ''watch-type'' ''My%20Type'' None])"
proof -
  have n: "''My Type'' \<noteq> []" by simp
  have e: "exampleEscape ''My Type'' = ''My%20Type''" by (simp add: exampleEscape_def)
  obtain c' obs where r:
    "forDocumentsOfType exampleEscape noFold connectedExample ''My Type'' quietEnv = Return (c', Inr obs)"
    "\<forall>v. filterFn obs (DocumentChangeN v) = Return (EqualFold noFold ''My Type'' (TypeName v))"
    "if mapIndex (counters connectedExample) (''types/'' @ ''My Type'') = None \<and>
        immediateConnection connectedExample = 0
     then \<exists>sock. client connectedExample = Some sock \<and>
            written (trace c') =
              written (trace connectedExample) @
                [Written sock (go_int (commandId connectedExample + 1)) ''watch-type''
                   (exampleEscape ''My Type'') (writeResult quietEnv)]
     else written (trace c') = written (trace connectedExample)"
    using watch_type_param_escaped[OF n ready_connectedExample, of exampleEscape noFold quietEnv]
    by blast
  have a: "filterFn obs (DocumentChangeN (exampleChange\<lparr>TypeName := ''my type''\<rparr>)) = Return True"
    using r(2) by (simp add: asciiFold_def)
  have b: "filterFn obs (DocumentChangeN (exampleChange\<lparr>TypeName := ''My%20Type''\<rparr>)) = Return False"
    using r(2) by (simp add: asciiFold_def)
  have w: "written (trace c') = [Written 0 1 ''watch-type'' ''My%20Type'' None]"
    using r(3) by (simp add: e quietEnv_def)
  show ?thesis
    using n ready_connectedExample e r(1) a b w by blast
qed

end
